theory Spec2Isabelle
  imports Complex_Main "HOL-Library.Word" "HOL-Library.Monad_Syntax"
begin

section \<open>Data model of the audio-processing utilities\<close>

text \<open>
  The development follows the utility module of the editor (settings, ease curves,
  \<open>processAudio\<close>, \<open>extractWaveformPeaks\<close>, \<open>audioBufferToWav\<close>,
  \<open>pickOpusMimeType\<close>). JavaScript numbers that hold times, gains and samples are
  modelled as real numbers: rounding of IEEE doubles and of 32-bit sample storage, NaN
  and the infinities are idealised away. Counts (channels, frames, sample rate in Hz,
  bucket numbers) are natural numbers.
\<close>

datatype EaseCurve = linear | exponential | logarithmic | sCurve

record Fade =
  enabled :: bool
  duration :: real
  curve :: EaseCurve

record AudioEditSettings =
  cropStart :: real
  cropEnd :: real
  volume :: real
  fadeIn :: Fade
  fadeOut :: Fade

text \<open>
  The host's \<open>AudioBuffer\<close>: a sample rate, a frame count (\<open>length\<close> in the source) and
  one sample sequence per channel. The host only hands out buffers with a positive rate,
  at least one channel and channels of the advertised length.
\<close>

record AudioBuffer =
  sampleRate :: nat
  buf_length :: nat
  channelData :: "real list list"

definition numberOfChannels :: "AudioBuffer \<Rightarrow> nat" where
  "numberOfChannels b = length (channelData b)"

definition valid_buffer :: "AudioBuffer \<Rightarrow> bool" where
  "valid_buffer b \<longleftrightarrow>
     0 < sampleRate b \<and> channelData b \<noteq> [] \<and>
     list_all (\<lambda>c. length c = buf_length b) (channelData b)"

text \<open>Exceptions raised by the host's media interfaces.\<close>

datatype HostException = RangeError | NotSupportedError | InvalidStateError | IndexSizeError

subsection \<open>Ease curves\<close>

text \<open>
  \<open>applyEaseCurve\<close>: the \<open>switch\<close> has a case for each of exponential, logarithmic
  and sCurve; its default branch serves linear.
\<close>

fun applyEaseCurve :: "real \<Rightarrow> EaseCurve \<Rightarrow> real" where
  "applyEaseCurve t exponential = t * t"
| "applyEaseCurve t logarithmic = sqrt t"
| "applyEaseCurve t sCurve = t * t * (3 - 2 * t)"
| "applyEaseCurve t linear = t"

subsection \<open>The host's parameter automation\<close>

text \<open>
  \<open>processAudio\<close> drives a single gain parameter through the host's automation calls.
  The host is not code of the editor: what it does with the calls is taken from the
  Web Audio interface the editor is written against. The calls are recorded as events;
  the host keeps them ordered by time (a new event goes after the events already
  present at the same time) and computes the parameter value at a time from the ordered
  list: a set-value event holds its value; a ramp interpolates from the preceding event
  to its own end point; a value curve interpolates linearly between its points over its
  interval and leaves its last point behind.
\<close>

datatype AutomationEvent =
    SetValueAtTime real real
  | LinearRampToValueAtTime real real
  | ExponentialRampToValueAtTime real real
  | SetValueCurveAtTime "real list" real real

fun eventTime :: "AutomationEvent \<Rightarrow> real" where
  "eventTime (SetValueAtTime v T) = T"
| "eventTime (LinearRampToValueAtTime v T) = T"
| "eventTime (ExponentialRampToValueAtTime v T) = T"
| "eventTime (SetValueCurveAtTime vs T D) = T"

fun insertEvent :: "AutomationEvent \<Rightarrow> AutomationEvent list \<Rightarrow> AutomationEvent list" where
  "insertEvent e [] = [e]"
| "insertEvent e (x # xs) =
     (if eventTime e < eventTime x then e # x # xs else x # insertEvent e xs)"

text \<open>Arguments the host refuses outright.\<close>

fun argumentError :: "AutomationEvent \<Rightarrow> HostException option" where
  "argumentError (SetValueAtTime v T) = (if T < 0 then Some RangeError else None)"
| "argumentError (LinearRampToValueAtTime v T) = (if T < 0 then Some RangeError else None)"
| "argumentError (ExponentialRampToValueAtTime v T) =
     (if v = 0 \<or> T < 0 then Some RangeError else None)"
| "argumentError (SetValueCurveAtTime vs T D) =
     (if length vs < 2 then Some InvalidStateError
      else if T < 0 \<or> D \<le> 0 then Some RangeError else None)"

text \<open>
  A value curve owns its interval: no event may be scheduled at a time inside the
  interval of an existing curve, and a new curve may not span existing events.
\<close>

fun curveCovers :: "AutomationEvent \<Rightarrow> real \<Rightarrow> bool" where
  "curveCovers (SetValueCurveAtTime vs T D) t = (T \<le> t \<and> t < T + D)"
| "curveCovers _ t = False"

fun spansEvents :: "AutomationEvent \<Rightarrow> AutomationEvent list \<Rightarrow> bool" where
  "spansEvents (SetValueCurveAtTime vs T D) tline =
     list_ex (\<lambda>x. T < eventTime x \<and> eventTime x < T + D) tline"
| "spansEvents _ tline = False"

definition scheduleEvent ::
  "AutomationEvent list \<Rightarrow> AutomationEvent \<Rightarrow> HostException + AutomationEvent list" where
  "scheduleEvent tline e =
     (case argumentError e of
        Some x \<Rightarrow> Inl x
      | None \<Rightarrow>
          if list_ex (\<lambda>c. curveCovers c (eventTime e)) tline \<or> spansEvents e tline
          then Inl NotSupportedError
          else Inr (insertEvent e tline))"

text \<open>A sequence of automation calls stops at the first exception.\<close>

fun scheduleAll ::
  "AutomationEvent list \<Rightarrow> AutomationEvent list \<Rightarrow> HostException + AutomationEvent list" where
  "scheduleAll tline [] = Inr tline"
| "scheduleAll tline (e # es) =
     (case scheduleEvent tline e of Inl x \<Rightarrow> Inl x | Inr tline' \<Rightarrow> scheduleAll tline' es)"

definition curveValueAt :: "real list \<Rightarrow> real \<Rightarrow> real \<Rightarrow> real \<Rightarrow> real" where
  "curveValueAt vs T D t =
     (let p = real (length vs - 1) / D * (t - T);
          k = nat \<lfloor>p\<rfloor>
      in vs ! k + (vs ! (k + 1) - vs ! k) * (p - real k))"

text \<open>
  \<open>paramValue T0 V0 es t\<close>: the value at time \<open>t\<close>, where \<open>(T0, V0)\<close> is the end point
  left by the events already passed and \<open>es\<close> are the events still ahead, in order.
\<close>

fun paramValue :: "real \<Rightarrow> real \<Rightarrow> AutomationEvent list \<Rightarrow> real \<Rightarrow> real" where
  "paramValue T0 V0 [] t = V0"
| "paramValue T0 V0 (SetValueAtTime v T # es) t =
     (if t < T then V0 else paramValue T v es t)"
| "paramValue T0 V0 (LinearRampToValueAtTime v T # es) t =
     (if t < T then V0 + (v - V0) * ((t - T0) / (T - T0)) else paramValue T v es t)"
| "paramValue T0 V0 (ExponentialRampToValueAtTime v T # es) t =
     (if t < T
      then (if V0 = 0 \<or> V0 * v < 0 then V0 else V0 * (v / V0) powr ((t - T0) / (T - T0)))
      else paramValue T v es t)"
| "paramValue T0 V0 (SetValueCurveAtTime vs T D # es) t =
     (if t < T then V0
      else if t < T + D then curveValueAt vs T D t
      else paramValue (T + D) (last vs) es t)"

text \<open>The gain parameter's default value is 1.\<close>

definition valueAtTime :: "AutomationEvent list \<Rightarrow> real \<Rightarrow> real" where
  "valueAtTime tline t = paramValue 0 1 tline t"

subsection \<open>Rendering: \<open>processAudio\<close>\<close>

datatype ProcessError =
    EmptyRegion \<comment> \<open>\<open>Error("Crop region is empty")\<close>\<close>
  | HostError HostException

definition startSample :: "AudioBuffer \<Rightarrow> AudioEditSettings \<Rightarrow> int" where
  "startSample src s = \<lfloor>cropStart s * real (sampleRate src)\<rfloor>"

definition endSample :: "AudioBuffer \<Rightarrow> AudioEditSettings \<Rightarrow> int" where
  "endSample src s = \<lfloor>cropEnd s * real (sampleRate src)\<rfloor>"

definition croppedLength :: "AudioBuffer \<Rightarrow> AudioEditSettings \<Rightarrow> int" where
  "croppedLength src s = endSample src s - startSample src s"

definition totalDuration :: "AudioBuffer \<Rightarrow> AudioEditSettings \<Rightarrow> real" where
  "totalDuration src s = real_of_int (croppedLength src s) / real (sampleRate src)"

definition steps :: nat where
  "steps = 100"

definition fadeInCurveValues :: "EaseCurve \<Rightarrow> real \<Rightarrow> real list" where
  "fadeInCurveValues c vol =
     map (\<lambda>i. applyEaseCurve (real i / real (steps - 1)) c * vol) [0..<steps]"

definition fadeOutCurveValues :: "EaseCurve \<Rightarrow> real \<Rightarrow> real list" where
  "fadeOutCurveValues c vol =
     map (\<lambda>i. applyEaseCurve (1 - real i / real (steps - 1)) c * vol) [0..<steps]"

text \<open>
  The body of the fade-in branch, for the clamped \<open>fadeDuration\<close>: the gain is set
  to 0 at time 0, then the curve's own calls follow.
\<close>

definition fadeInEvents :: "EaseCurve \<Rightarrow> real \<Rightarrow> real \<Rightarrow> AutomationEvent list" where
  "fadeInEvents c vol fadeDuration =
     SetValueAtTime 0 0 #
     (case c of
        exponential \<Rightarrow>
          [SetValueAtTime 0.001 0, ExponentialRampToValueAtTime vol fadeDuration]
      | logarithmic \<Rightarrow> [SetValueCurveAtTime (fadeInCurveValues c vol) 0 fadeDuration]
      | sCurve \<Rightarrow> [SetValueCurveAtTime (fadeInCurveValues c vol) 0 fadeDuration]
      | linear \<Rightarrow> [LinearRampToValueAtTime vol fadeDuration])"

definition fadeInCalls :: "AudioBuffer \<Rightarrow> AudioEditSettings \<Rightarrow> AutomationEvent list" where
  "fadeInCalls src s =
     (if enabled (fadeIn s) \<and> duration (fadeIn s) > 0 then
        let fadeDuration = min (duration (fadeIn s)) (totalDuration src s)
        in fadeInEvents (curve (fadeIn s)) (volume s) fadeDuration
      else [])"

text \<open>The body of the fade-out branch.\<close>

definition fadeOutEvents ::
  "EaseCurve \<Rightarrow> real \<Rightarrow> real \<Rightarrow> real \<Rightarrow> real \<Rightarrow> AutomationEvent list" where
  "fadeOutEvents c vol fadeOutStart fadeDuration totalD =
     (case c of
        exponential \<Rightarrow>
          [SetValueAtTime vol fadeOutStart, ExponentialRampToValueAtTime 0.001 totalD]
      | logarithmic \<Rightarrow>
          [SetValueCurveAtTime (fadeOutCurveValues c vol) fadeOutStart fadeDuration]
      | sCurve \<Rightarrow>
          [SetValueCurveAtTime (fadeOutCurveValues c vol) fadeOutStart fadeDuration]
      | linear \<Rightarrow>
          [SetValueAtTime vol fadeOutStart, LinearRampToValueAtTime 0 totalD])"

definition fadeOutCalls :: "AudioBuffer \<Rightarrow> AudioEditSettings \<Rightarrow> AutomationEvent list" where
  "fadeOutCalls src s =
     (if enabled (fadeOut s) \<and> duration (fadeOut s) > 0 then
        let fadeDuration = min (duration (fadeOut s)) (totalDuration src s);
            fadeOutStart = totalDuration src s - fadeDuration
        in fadeOutEvents (curve (fadeOut s)) (volume s) fadeOutStart fadeDuration
             (totalDuration src s)
      else [])"

text \<open>The automation calls of \<open>processAudio\<close> on the gain parameter, in program order.\<close>

definition gainCalls :: "AudioBuffer \<Rightarrow> AudioEditSettings \<Rightarrow> AutomationEvent list" where
  "gainCalls src s = SetValueAtTime (volume s) 0 # fadeInCalls src s @ fadeOutCalls src s"

text \<open>
  The buffer source is started at context time 0 with an offset into the source (in
  seconds) and a playing time. It plays at the source's own rate, one source frame per
  output frame, beginning with the frame that holds the offset; once the playing time
  is over, or past the end of the source, it is silent.
\<close>

definition sourceFrame :: "AudioBuffer \<Rightarrow> real \<Rightarrow> real \<Rightarrow> nat \<Rightarrow> nat \<Rightarrow> real" where
  "sourceFrame src offset playing ch i =
     (let pos = nat \<lfloor>offset * real (sampleRate src)\<rfloor> + i
      in if real i / real (sampleRate src) < playing \<and> pos < buf_length src
         then channelData src ! ch ! pos else 0)"

text \<open>
  The offline context renders the requested number of frames and channels at the
  requested rate; each frame is the source frame scaled by the gain at the frame's time.
\<close>

definition startRendering ::
  "nat \<Rightarrow> nat \<Rightarrow> nat \<Rightarrow> AudioBuffer \<Rightarrow> real \<Rightarrow> real \<Rightarrow> AutomationEvent list \<Rightarrow> AudioBuffer" where
  "startRendering channels len rate src offset playing tline =
     \<lparr>sampleRate = rate, buf_length = len,
      channelData =
        map (\<lambda>ch. map (\<lambda>i. sourceFrame src offset playing ch i
                              * valueAtTime tline (real i / real rate)) [0..<len])
            [0..<channels]\<rparr>"

definition processAudio :: "AudioBuffer \<Rightarrow> AudioEditSettings \<Rightarrow> ProcessError + AudioBuffer" where
  "processAudio sourceBuffer settings =
     (let channels = numberOfChannels sourceBuffer in
      if croppedLength sourceBuffer settings \<le> 0 then Inl EmptyRegion
      else if channels = 0 \<or> sampleRate sourceBuffer = 0 then Inl (HostError NotSupportedError)
      else case scheduleAll [] (gainCalls sourceBuffer settings) of
             Inl x \<Rightarrow> Inl (HostError x)
           | Inr tline \<Rightarrow>
               if cropStart settings < 0 \<or> cropEnd settings - cropStart settings < 0
               then Inl (HostError RangeError)
               else Inr (startRendering channels (nat (croppedLength sourceBuffer settings))
                           (sampleRate sourceBuffer) sourceBuffer
                           (cropStart settings) (cropEnd settings - cropStart settings) tline))"

subsection \<open>Waveform peaks: \<open>extractWaveformPeaks\<close>\<close>

record PeakBuckets =
  positive :: "real list"
  negative :: "real list"

text \<open>
  The inner loop over one bucket: the running maximum starts at \<open>-1\<close>, the running
  minimum at \<open>1\<close>, and each sample replaces them when it lies strictly beyond.
\<close>

definition bucketScan :: "real list \<Rightarrow> nat \<Rightarrow> nat \<Rightarrow> real \<times> real" where
  "bucketScan chan start end' =
     foldl (\<lambda>(mx, mn) j.
              let val = chan ! j
              in (if val > mx then val else mx, if val < mn then val else mn))
           (-1, 1) [start..<end']"

text \<open>
  Only the first channel is read; asking a buffer without channels for channel 0 raises
  the host's index error.
\<close>

definition extractWaveformPeaks :: "AudioBuffer \<Rightarrow> nat \<Rightarrow> HostException + PeakBuckets" where
  "extractWaveformPeaks buffer numBuckets =
     (case channelData buffer of
        [] \<Rightarrow> Inl IndexSizeError
      | chan # _ \<Rightarrow>
          let samplesPerBucket = length chan div numBuckets;
              peaks = map (\<lambda>i. let start = i * samplesPerBucket;
                                    end' = min (start + samplesPerBucket) (length chan)
                                in bucketScan chan start end')
                          [0..<numBuckets]
          in Inr \<lparr>positive = map fst peaks, negative = map snd peaks\<rparr>)"

subsection \<open>The WAV encoder: \<open>audioBufferToWav\<close>\<close>

type_synonym byte = "8 word"

text \<open>Little-endian byte sequences of 16-bit and 32-bit values.\<close>

definition le16 :: "16 word \<Rightarrow> byte list" where
  "le16 w = [ucast w, ucast (drop_bit 8 w)]"

definition le32 :: "32 word \<Rightarrow> byte list" where
  "le32 w = [ucast w, ucast (drop_bit 8 w), ucast (drop_bit 16 w), ucast (drop_bit 24 w)]"

text \<open>
  A \<open>DataView\<close> store writes the bytes of the value at the given offset and raises a
  range error (\<open>None\<close>) when they do not fit into the view. Numbers are first
  converted to the integer type of the store: unsigned stores reduce modulo the width,
  \<open>setInt16\<close> truncates towards zero and reduces modulo \<open>2\<^sup>1\<^sup>6\<close>.
\<close>

definition setBytes :: "byte list \<Rightarrow> nat \<Rightarrow> byte list \<Rightarrow> byte list option" where
  "setBytes view byteOffset bs =
     (if byteOffset + length bs \<le> length view
      then Some (take byteOffset view @ bs @ drop (byteOffset + length bs) view)
      else None)"

definition setUint8 :: "byte list \<Rightarrow> nat \<Rightarrow> nat \<Rightarrow> byte list option" where
  "setUint8 view byteOffset v = setBytes view byteOffset [of_nat v]"

definition setUint16 :: "byte list \<Rightarrow> nat \<Rightarrow> nat \<Rightarrow> byte list option" where
  "setUint16 view byteOffset v = setBytes view byteOffset (le16 (of_nat v))"

definition setUint32 :: "byte list \<Rightarrow> nat \<Rightarrow> nat \<Rightarrow> byte list option" where
  "setUint32 view byteOffset v = setBytes view byteOffset (le32 (of_nat v))"

definition truncate :: "real \<Rightarrow> int" where
  "truncate x = (if x < 0 then \<lceil>x\<rceil> else \<lfloor>x\<rfloor>)"

definition setInt16 :: "byte list \<Rightarrow> nat \<Rightarrow> real \<Rightarrow> byte list option" where
  "setInt16 view byteOffset x = setBytes view byteOffset (le16 (word_of_int (truncate x)))"

fun writeString :: "byte list \<Rightarrow> nat \<Rightarrow> string \<Rightarrow> byte list option" where
  "writeString view offset [] = Some view"
| "writeString view offset (c # str) =
     do { view' \<leftarrow> setUint8 view offset (of_char c);
          writeString view' (offset + 1) str }"

text \<open>
  The value handed to \<open>setInt16\<close> for one sample: clamp to \<open>[-1, 1]\<close>, then scale
  negative values by \<open>0x8000\<close> and the others by \<open>0x7fff\<close>.
\<close>

definition int16 :: "real \<Rightarrow> real" where
  "int16 sample =
     (let clamped = max (-1) (min 1 sample)
      in if clamped < 0 then clamped * 32768 else clamped * 32767)"

text \<open>The two nested loops: frames outside, channels inside, the offset advancing by 2.\<close>

fun writeChannels ::
  "AudioBuffer \<Rightarrow> nat \<Rightarrow> nat list \<Rightarrow> byte list \<times> nat \<Rightarrow> (byte list \<times> nat) option" where
  "writeChannels buffer i [] st = Some st"
| "writeChannels buffer i (ch # chs) (view, offset) =
     do { view' \<leftarrow> setInt16 view offset (int16 (channelData buffer ! ch ! i));
          writeChannels buffer i chs (view', offset + 2) }"

fun writeFrames ::
  "AudioBuffer \<Rightarrow> nat list \<Rightarrow> byte list \<times> nat \<Rightarrow> (byte list \<times> nat) option" where
  "writeFrames buffer [] st = Some st"
| "writeFrames buffer (i # is) st =
     do { st' \<leftarrow> writeChannels buffer i [0..<numberOfChannels buffer] st;
          writeFrames buffer is st' }"

definition audioBufferToWav :: "AudioBuffer \<Rightarrow> byte list option" where
  "audioBufferToWav buffer =
     (let channels = numberOfChannels buffer;
          rate = sampleRate buffer;
          bitsPerSample = 16;
          bytesPerSample = bitsPerSample div 8;
          blockAlign = channels * bytesPerSample;
          dataLength = buf_length buffer * blockAlign;
          headerLength = 44;
          totalLength = headerLength + dataLength;
          arrayBuffer = replicate totalLength (0 :: byte)
      in do {
        view \<leftarrow> writeString arrayBuffer 0 ''RIFF'';
        view \<leftarrow> setUint32 view 4 (totalLength - 8);
        view \<leftarrow> writeString view 8 ''WAVE'';
        view \<leftarrow> writeString view 12 ''fmt '';
        view \<leftarrow> setUint32 view 16 16;
        view \<leftarrow> setUint16 view 20 1;
        view \<leftarrow> setUint16 view 22 channels;
        view \<leftarrow> setUint32 view 24 rate;
        view \<leftarrow> setUint32 view 28 (rate * blockAlign);
        view \<leftarrow> setUint16 view 32 blockAlign;
        view \<leftarrow> setUint16 view 34 bitsPerSample;
        view \<leftarrow> writeString view 36 ''data'';
        view \<leftarrow> setUint32 view 40 dataLength;
        (view, offset) \<leftarrow> writeFrames buffer [0..<buf_length buffer] (view, 44);
        Some view
      })"

subsection \<open>Choosing the recorder's container: \<open>pickOpusMimeType\<close>\<close>



section \<open>Notions used in the statements\<close>

subsection \<open>Notions for reasoning about timelines\<close>

text \<open>
  The time at which an event is complete, the
  value it leaves behind, whether it is a ramp, and call sequences that are already in
  time order with acceptable arguments and no event inside an earlier curve.
\<close>

fun eventEnd :: "AutomationEvent \<Rightarrow> real" where
  "eventEnd (SetValueCurveAtTime vs T D) = T + D"
| "eventEnd e = eventTime e"

fun endValue :: "AutomationEvent \<Rightarrow> real" where
  "endValue (SetValueAtTime v T) = v"
| "endValue (LinearRampToValueAtTime v T) = v"
| "endValue (ExponentialRampToValueAtTime v T) = v"
| "endValue (SetValueCurveAtTime vs T D) = last vs"


fun orderly :: "AutomationEvent list \<Rightarrow> bool" where
  "orderly [] = True"
| "orderly (e # es) =
     (argumentError e = None \<and> list_all (\<lambda>x. eventEnd e \<le> eventTime x) es \<and> orderly es)"

subsection \<open>Notions used in the statements about \<open>processAudio\<close>\<close>

text \<open>The buffer's \<open>duration\<close> attribute, in seconds.\<close>

definition bufferDuration :: "AudioBuffer \<Rightarrow> real" where
  "bufferDuration b = real (buf_length b) / real (sampleRate b)"

text \<open>The guards of the two fade branches, and the windows the branches compute.\<close>

definition fadeInActive :: "AudioEditSettings \<Rightarrow> bool" where
  "fadeInActive s \<longleftrightarrow> enabled (fadeIn s) \<and> 0 < duration (fadeIn s)"

definition fadeOutActive :: "AudioEditSettings \<Rightarrow> bool" where
  "fadeOutActive s \<longleftrightarrow> enabled (fadeOut s) \<and> 0 < duration (fadeOut s)"

definition fadeInEnd :: "AudioBuffer \<Rightarrow> AudioEditSettings \<Rightarrow> real" where
  "fadeInEnd src s = min (duration (fadeIn s)) (totalDuration src s)"

definition fadeOutStart :: "AudioBuffer \<Rightarrow> AudioEditSettings \<Rightarrow> real" where
  "fadeOutStart src s = totalDuration src s - min (duration (fadeOut s)) (totalDuration src s)"

definition windowsOverlap :: "AudioBuffer \<Rightarrow> AudioEditSettings \<Rightarrow> bool" where
  "windowsOverlap src s \<longleftrightarrow>
     fadeInActive s \<and> fadeOutActive s \<and> fadeOutStart src s < fadeInEnd src s"

text \<open>The host takes every automation call of \<open>processAudio\<close> without an exception.\<close>

definition gainAccepted :: "AudioBuffer \<Rightarrow> AudioEditSettings \<Rightarrow> bool" where
  "gainAccepted src s =
     (case scheduleAll [] (gainCalls src s) of Inl x \<Rightarrow> False | Inr tline \<Rightarrow> True)"

text \<open>One sample of the rendered buffer, when there is one.\<close>

definition renderedSample :: "AudioBuffer \<Rightarrow> AudioEditSettings \<Rightarrow> nat \<Rightarrow> nat \<Rightarrow> real option" where
  "renderedSample src s ch i =
     (case processAudio src s of Inl e \<Rightarrow> None | Inr out \<Rightarrow> Some (channelData out ! ch ! i))"

text \<open>
  The gain that the rendering applies at a time, when the host accepts the automation.
\<close>

definition renderGain :: "AudioBuffer \<Rightarrow> AudioEditSettings \<Rightarrow> real \<Rightarrow> real option" where
  "renderGain src s t =
     (case scheduleAll [] (gainCalls src s) of
        Inl x \<Rightarrow> None
      | Inr tline \<Rightarrow> Some (valueAtTime tline t))"

subsection \<open>The gain as the specification describes it\<close>








subsection \<open>Notions used in the statements about \<open>extractWaveformPeaks\<close>\<close>

text \<open>
  As the specification describes bucket \<open>i\<close>: the \<open>i\<close>-th of the contiguous windows of
  \<open>\<lfloor>length / numBuckets\<rfloor>\<close> samples of the first channel.
\<close>

definition specBucketWindow :: "real list \<Rightarrow> nat \<Rightarrow> nat \<Rightarrow> real list" where
  "specBucketWindow chan numBuckets i =
     take (length chan div numBuckets) (drop (i * (length chan div numBuckets)) chan)"

definition firstChannel :: "AudioBuffer \<Rightarrow> real list" where
  "firstChannel b = hd (channelData b)"

subsection \<open>The WAV container as the specification lays it out\<close>

text \<open>
  The byte-layout table of the specification: the header as the sequence of its
  fields (chunk id, total size, format, subchunk id, subchunk size, audio format,
  channel count, sample rate, byte rate, block align, bits per sample, subchunk id,
  data size), each number little-endian in 4 or 2 bytes; and the sample data: frames in
  order, within a frame the channels in order, each sample as a little-endian signed
  16-bit value.
\<close>

definition ascii :: "string \<Rightarrow> byte list" where
  "ascii str = map (\<lambda>c. of_nat (of_char c)) str"

definition specWavHeader ::
  "nat \<Rightarrow> nat \<Rightarrow> nat \<Rightarrow> nat \<Rightarrow> nat \<Rightarrow> nat \<Rightarrow> nat \<Rightarrow> nat \<Rightarrow> nat \<Rightarrow> byte list" where
  "specWavHeader totalSize fmtSize audioFormat channelCount rate byteRate blockAlign bits dataSize =
     ascii ''RIFF'' @ le32 (of_nat totalSize) @ ascii ''WAVE''
     @ ascii ''fmt '' @ le32 (of_nat fmtSize) @ le16 (of_nat audioFormat)
     @ le16 (of_nat channelCount) @ le32 (of_nat rate) @ le32 (of_nat byteRate)
     @ le16 (of_nat blockAlign) @ le16 (of_nat bits)
     @ ascii ''data'' @ le32 (of_nat dataSize)"

definition sampleBytes :: "AudioBuffer \<Rightarrow> nat \<Rightarrow> nat \<Rightarrow> byte list" where
  "sampleBytes b i ch = le16 (word_of_int (truncate (int16 (channelData b ! ch ! i))))"

definition frameBytes :: "AudioBuffer \<Rightarrow> nat \<Rightarrow> byte list" where
  "frameBytes b i = concat (map (sampleBytes b i) [0..<numberOfChannels b])"

definition specInterleaved :: "AudioBuffer \<Rightarrow> byte list" where
  "specInterleaved b = concat (map (frameBytes b) [0..<buf_length b])"

section \<open>Concrete inputs\<close>

text \<open>Two seconds of a constant signal 1 at 8000 Hz, one channel.\<close>

definition tone :: AudioBuffer where
  "tone = \<lparr>sampleRate = 8000, buf_length = 16000, channelData = [replicate 16000 1]\<rparr>"

definition noFade :: Fade where
  "noFade = \<lparr>enabled = False, duration = 0.2, curve = linear\<rparr>"

text \<open>A crop of a twentieth of a millisecond: start before end, inside one frame.\<close>

definition sliver :: AudioEditSettings where
  "sliver = \<lparr>cropStart = 0.5, cropEnd = 0.50005, volume = 1,
              fadeIn = noFade, fadeOut = noFade\<rparr>"

text \<open>The middle second at half volume with a linear fade-in of a quarter second.\<close>

definition middleSecond :: AudioEditSettings where
  "middleSecond = \<lparr>cropStart = 0.5, cropEnd = 1.5, volume = 0.5,
       fadeIn = \<lparr>enabled = True, duration = 0.25, curve = linear\<rparr>, fadeOut = noFade\<rparr>"


text \<open>A crop shorter than one frame at the start of the recording.\<close>

definition instant :: AudioEditSettings where
  "instant = \<lparr>cropStart = 0, cropEnd = 0.0001, volume = 1, fadeIn = noFade, fadeOut = noFade\<rparr>"


text \<open>
  The middle second at full volume with an exponential fade-in and a linear fade-out
  that both span the whole second.
\<close>

definition fullCross :: AudioEditSettings where
  "fullCross = \<lparr>cropStart = 0.5, cropEnd = 1.5, volume = 1,
       fadeIn = \<lparr>enabled = True, duration = 1, curve = exponential\<rparr>,
       fadeOut = \<lparr>enabled = True, duration = 1, curve = linear\<rparr>\<rparr>"

text \<open>
  The middle second at half volume with exponential fades over the first and the last
  quarter second.
\<close>

definition bothExponential :: AudioEditSettings where
  "bothExponential = \<lparr>cropStart = 0.5, cropEnd = 1.5, volume = 0.5,
       fadeIn = \<lparr>enabled = True, duration = 0.25, curve = exponential\<rparr>,
       fadeOut = \<lparr>enabled = True, duration = 0.25, curve = exponential\<rparr>\<rparr>"

text \<open>One window of samples below \<open>-1\<close>, as a decoder's overshoot can produce.\<close>

definition overshoot :: AudioBuffer where
  "overshoot = \<lparr>sampleRate = 8000, buf_length = 4, channelData = [[-2, -1.5, 0.3, 0.2]]\<rparr>"

text \<open>Two stereo frames at 44100 Hz, with samples outside \<open>[-1, 1]\<close> in the second channel.\<close>

definition stereoPair :: AudioBuffer where
  "stereoPair = \<lparr>sampleRate = 44100, buf_length = 2, channelData = [[0.5, -0.3], [1.5, -2]]\<rparr>"

text \<open>A mono buffer without frames.\<close>

definition emptyMono :: AudioBuffer where
  "emptyMono = \<lparr>sampleRate = 8000, buf_length = 0, channelData = [[]]\<rparr>"



section \<open>Ease curves: laws, end points, monotonicity\<close>

lemma sCurve_mono:
  fixes a b :: real
  assumes "0 \<le> a" "a \<le> b" "b \<le> 1"
  shows "a * a * (3 - 2 * a) \<le> b * b * (3 - 2 * b)"
proof -
  have aa: "a * a \<le> a" using assms by (simp add: mult_left_le)
  have bb: "b * b \<le> b" using assms by (simp add: mult_left_le)
  have "a * b \<le> a" using assms by (simp add: mult_left_le)
  moreover have "a * b \<le> b" using assms by (simp add: mult_left_le_one_le)
  ultimately have ab: "2 * (a * b) \<le> a + b" by linarith
  have key: "2 * (a * a) + 2 * (a * b) + 2 * (b * b) \<le> 3 * a + 3 * b"
    using aa bb ab by linarith
  have fac: "b * b * (3 - 2 * b) - a * a * (3 - 2 * a)
      = (b - a) * (3 * a + 3 * b - (2 * (a * a) + 2 * (a * b) + 2 * (b * b)))"
    by (simp add: algebra_simps)
  have "0 \<le> (b - a) * (3 * a + 3 * b - (2 * (a * a) + 2 * (a * b) + 2 * (b * b)))"
    using assms key by (intro mult_nonneg_nonneg) simp_all
  with fac have "0 \<le> b * b * (3 - 2 * b) - a * a * (3 - 2 * a)" by simp
  then show ?thesis by linarith
qed

text \<open>
  Claim C8. For each of the four curve kinds the evaluator follows its law
  (\<open>t\<close>, \<open>t\<^sup>2\<close>, \<open>\<surd>t\<close>, \<open>t\<^sup>2 (3 - 2 t)\<close>), maps 0 to 0 and 1 to 1, and is monotonically
  non-decreasing on the unit interval.
\<close>

theorem applyEaseCurve_laws_monotone:
  "applyEaseCurve t linear = t
   \<and> applyEaseCurve t exponential = t\<^sup>2
   \<and> applyEaseCurve t logarithmic = sqrt t
   \<and> applyEaseCurve t sCurve = t\<^sup>2 * (3 - 2 * t)
   \<and> applyEaseCurve 0 c = 0
   \<and> applyEaseCurve 1 c = 1
   \<and> (0 \<le> t1 \<and> t1 \<le> t2 \<and> t2 \<le> 1 \<longrightarrow> applyEaseCurve t1 c \<le> applyEaseCurve t2 c)"
proof -
  have mono: "applyEaseCurve t1 c \<le> applyEaseCurve t2 c"
    if h: "0 \<le> t1" "t1 \<le> t2" "t2 \<le> 1"
  proof (cases c)
    case linear
    then show ?thesis using h by simp
  next
    case exponential
    then show ?thesis using h by (simp add: mult_mono)
  next
    case logarithmic
    then show ?thesis using h by simp
  next
    case sCurve
    then show ?thesis using sCurve_mono [OF h] by simp
  qed
  have ends: "applyEaseCurve 0 c = 0 \<and> applyEaseCurve 1 c = 1"
    by (cases c) simp_all
  show ?thesis using mono ends by (simp add: power2_eq_square)
qed

theorem applyEaseCurve_laws_monotone_witness:
  "(0::real) \<le> 1/4 \<and> (1/4::real) \<le> 1/2 \<and> (1/2::real) \<le> 1
   \<and> applyEaseCurve (1/4) sCurve \<le> applyEaseCurve (1/2) sCurve
   \<and> applyEaseCurve (1/4) sCurve = 5/32 \<and> applyEaseCurve (1/2) sCurve = 1/2"
  using applyEaseCurve_laws_monotone [of "1/4" sCurve "1/4" "1/2"]
  by (simp add: power2_eq_square)

section \<open>Container selection\<close>




section \<open>WAV encoder: sample quantisation\<close>





section \<open>The automation timeline\<close>

lemma eventTime_le_eventEnd: "argumentError e = None \<Longrightarrow> eventTime e \<le> eventEnd e"
  by (cases e) (auto split: if_splits)

lemma insertEvent_last:
  "list_all (\<lambda>x. eventTime x \<le> eventTime e) evs \<Longrightarrow> insertEvent e evs = evs @ [e]"
  by (induction evs) auto

lemma orderly_append:
  "orderly (xs @ ys) \<longleftrightarrow>
     orderly xs \<and> orderly ys \<and> list_all (\<lambda>x. list_all (\<lambda>y. eventEnd x \<le> eventTime y) ys) xs"
  by (induction xs) (auto simp: list_all_iff)

lemma scheduleEvent_orderly:
  assumes "orderly (pre @ [e])"
  shows "scheduleEvent pre e = Inr (pre @ [e])"
proof -
  from assms have arg: "argumentError e = None"
    and pre: "orderly pre"
    and le: "list_all (\<lambda>x. eventEnd x \<le> eventTime e) pre"
    by (simp_all add: orderly_append list_all_iff)
  have args: "list_all (\<lambda>x. argumentError x = None) pre"
    using pre by (induction pre) auto
  have tle: "list_all (\<lambda>x. eventTime x \<le> eventTime e) pre"
    unfolding list_all_iff
  proof
    fix x assume x: "x \<in> set pre"
    then have "eventTime x \<le> eventEnd x"
      using args by (intro eventTime_le_eventEnd) (simp add: list_all_iff)
    moreover have "eventEnd x \<le> eventTime e"
      using le x by (simp add: list_all_iff)
    ultimately show "eventTime x \<le> eventTime e" by linarith
  qed
  have nocover: "\<not> list_ex (\<lambda>c. curveCovers c (eventTime e)) pre"
  proof -
    have "\<not> curveCovers c (eventTime e)" if "c \<in> set pre" for c
    proof -
      have "eventEnd c \<le> eventTime e"
        using that le by (simp add: list_all_iff)
      then show ?thesis by (cases c) auto
    qed
    then show ?thesis by (auto simp: list_ex_iff)
  qed
  have nospan: "\<not> spansEvents e pre"
    using tle by (cases e) (auto simp: list_ex_iff list_all_iff)
  show ?thesis
    using arg nocover nospan insertEvent_last [OF tle] by (simp add: scheduleEvent_def)
qed

lemma scheduleAll_orderly:
  "orderly (pre @ calls) \<Longrightarrow> scheduleAll pre calls = Inr (pre @ calls)"
proof (induction calls arbitrary: pre)
  case Nil
  then show ?case by simp
next
  case (Cons e es)
  have "orderly (pre @ [e])"
    using Cons.prems by (simp add: orderly_append list_all_iff)
  then have step: "scheduleEvent pre e = Inr (pre @ [e])"
    by (rule scheduleEvent_orderly)
  have "orderly ((pre @ [e]) @ es)" using Cons.prems by simp
  then have "scheduleAll (pre @ [e]) es = Inr ((pre @ [e]) @ es)"
    by (rule Cons.IH)
  with step show ?case by simp
qed


lemma paramValue_append_after:
  "xs \<noteq> [] \<Longrightarrow> list_all (\<lambda>x. eventTime x \<le> eventEnd x \<and> eventEnd x \<le> t) xs \<Longrightarrow>
   paramValue T0 V0 (xs @ ys) t = paramValue (eventEnd (last xs)) (endValue (last xs)) ys t"
proof (induction xs arbitrary: T0 V0)
  case Nil
  then show ?case by simp
next
  case (Cons x xs)
  show ?case
  proof (cases "xs = []")
    case True
    with Cons.prems show ?thesis by (cases x) auto
  next
    case False
    with Cons show ?thesis by (cases x) auto
  qed
qed

section \<open>Rendering: crop arithmetic and the shape of the result\<close>

lemma valid_buffer_tone: "valid_buffer tone"
  by (simp add: valid_buffer_def tone_def)

lemma croppedLength_pos_order:
  assumes "0 < croppedLength src s" "0 < sampleRate src"
  shows "cropStart s < cropEnd s"
proof (rule ccontr)
  assume "\<not> cropStart s < cropEnd s"
  then have "cropEnd s * real (sampleRate src) \<le> cropStart s * real (sampleRate src)"
    using assms(2) by (simp add: mult_right_mono)
  then have "endSample src s \<le> startSample src s"
    unfolding endSample_def startSample_def by (rule floor_mono)
  with assms(1) show False by (simp add: croppedLength_def)
qed

lemma processAudio_Inr:
  assumes "valid_buffer src" "0 < croppedLength src s" "0 \<le> cropStart s"
    and "scheduleAll [] (gainCalls src s) = Inr tline"
  shows "processAudio src s =
     Inr (startRendering (numberOfChannels src) (nat (croppedLength src s)) (sampleRate src)
            src (cropStart s) (cropEnd s - cropStart s) tline)"
proof -
  have sr: "0 < sampleRate src" and ch: "numberOfChannels src \<noteq> 0"
    using assms(1) by (simp_all add: valid_buffer_def numberOfChannels_def)
  have "cropStart s < cropEnd s"
    using croppedLength_pos_order [OF assms(2) sr] .
  then show ?thesis
    using assms sr ch by (simp add: processAudio_def Let_def)
qed

lemma startRendering_shape:
  "sampleRate (startRendering c n r src off pl tline) = r
   \<and> buf_length (startRendering c n r src off pl tline) = n
   \<and> numberOfChannels (startRendering c n r src off pl tline) = c
   \<and> list_all (\<lambda>x. length x = n) (channelData (startRendering c n r src off pl tline))"
  by (simp add: startRendering_def numberOfChannels_def list_all_iff)

lemma startRendering_nth:
  "ch < c \<Longrightarrow> i < n \<Longrightarrow>
   channelData (startRendering c n r src off pl tline) ! ch ! i =
     sourceFrame src off pl ch i * valueAtTime tline (real i / real r)"
  by (simp add: startRendering_def)


section \<open>The empty crop region\<close>

text \<open>
  Claim C2. \<open>processAudio\<close> fails with the empty-region error exactly when the quantised
  length \<open>\<lfloor>cropEnd \<sqdot> sampleRate\<rfloor> - \<lfloor>cropStart \<sqdot> sampleRate\<rfloor>\<close> is at most 0, also when
  \<open>cropStart < cropEnd\<close> fall into the same frame; then no buffer is returned. This
  is the only check \<open>processAudio\<close> makes itself: every other failure is an exception
  raised by a host interface (\<open>HostError\<close>).
\<close>

theorem processAudio_EmptyRegion_iff:
  "(processAudio src s = Inl EmptyRegion) =
     (\<lfloor>cropEnd s * real (sampleRate src)\<rfloor> - \<lfloor>cropStart s * real (sampleRate src)\<rfloor> \<le> 0)
   \<and> (\<lfloor>cropEnd s * real (sampleRate src)\<rfloor> - \<lfloor>cropStart s * real (sampleRate src)\<rfloor> \<le> 0
        \<longrightarrow> (\<forall>out. processAudio src s \<noteq> Inr out))"
proof -
  have a: "(processAudio src s = Inl EmptyRegion) = (croppedLength src s \<le> 0)"
    by (simp add: processAudio_def Let_def split: sum.splits)
  have b: "croppedLength src s \<le> 0 \<Longrightarrow> processAudio src s \<noteq> Inr out" for out
    by (simp add: processAudio_def Let_def)
  show ?thesis
    using a b by (simp add: croppedLength_def endSample_def startSample_def)
qed

theorem processAudio_EmptyRegion_iff_witness:
  "cropStart sliver < cropEnd sliver
   \<and> \<lfloor>cropEnd sliver * real (sampleRate tone)\<rfloor> = 4000
   \<and> \<lfloor>cropStart sliver * real (sampleRate tone)\<rfloor> = 4000
   \<and> processAudio tone sliver = Inl EmptyRegion
   \<and> processAudio tone middleSecond \<noteq> Inl EmptyRegion"
proof -
  have f: "\<lfloor>cropEnd sliver * real (sampleRate tone)\<rfloor> = 4000"
    "\<lfloor>cropStart sliver * real (sampleRate tone)\<rfloor> = 4000"
    by (simp_all add: sliver_def tone_def floor_eq_iff)
  have g: "\<lfloor>cropEnd middleSecond * real (sampleRate tone)\<rfloor> = 12000"
    "\<lfloor>cropStart middleSecond * real (sampleRate tone)\<rfloor> = 4000"
    by (simp_all add: middleSecond_def tone_def floor_eq_iff)
  have "cropStart sliver < cropEnd sliver" by (simp add: sliver_def)
  then show ?thesis
    using processAudio_EmptyRegion_iff [of tone sliver]
      processAudio_EmptyRegion_iff [of tone middleSecond] f g
    by simp
qed

section \<open>The gain scheduled by \<open>processAudio\<close>\<close>

subsection \<open>Sampled curves\<close>

lemma applyEaseCurve_0 [simp]: "applyEaseCurve 0 c = 0"
  by (cases c) simp_all

lemma applyEaseCurve_1 [simp]: "applyEaseCurve 1 c = 1"
  by (cases c) simp_all

lemma fadeInCurveValues_length [simp]: "length (fadeInCurveValues c vol) = 100"
  by (simp add: fadeInCurveValues_def steps_def)

lemma fadeOutCurveValues_length [simp]: "length (fadeOutCurveValues c vol) = 100"
  by (simp add: fadeOutCurveValues_def steps_def)

lemma fadeInCurveValues_last [simp]: "last (fadeInCurveValues c vol) = vol"
  by (simp add: fadeInCurveValues_def steps_def last_map)

lemma fadeOutCurveValues_last [simp]: "last (fadeOutCurveValues c vol) = 0"
  by (simp add: fadeOutCurveValues_def steps_def last_map)


lemma fadeOutCurveValues_nth:
  "k < 100 \<Longrightarrow> fadeOutCurveValues c vol ! k = applyEaseCurve (1 - real k / 99) c * vol"
  by (simp add: fadeOutCurveValues_def steps_def)




subsection \<open>The calls in terms of the fade windows\<close>

lemma fadeInCalls_eq:
  "fadeInCalls src s =
     (if fadeInActive s
      then fadeInEvents (curve (fadeIn s)) (volume s) (fadeInEnd src s) else [])"
  by (simp add: fadeInCalls_def fadeInActive_def fadeInEnd_def Let_def)

lemma fadeOutCalls_eq:
  "fadeOutCalls src s =
     (if fadeOutActive s
      then fadeOutEvents (curve (fadeOut s)) (volume s) (fadeOutStart src s)
             (totalDuration src s - fadeOutStart src s) (totalDuration src s)
      else [])"
  by (simp add: fadeOutCalls_def fadeOutActive_def fadeOutStart_def Let_def)

lemma totalDuration_pos:
  "0 < croppedLength src s \<Longrightarrow> 0 < sampleRate src \<Longrightarrow> 0 < totalDuration src s"
  by (simp add: totalDuration_def)

lemma fadeInEnd_bounds:
  "fadeInActive s \<Longrightarrow> 0 < totalDuration src s \<Longrightarrow>
   0 < fadeInEnd src s \<and> fadeInEnd src s \<le> totalDuration src s"
  by (simp add: fadeInActive_def fadeInEnd_def)

lemma fadeOutStart_bounds:
  "fadeOutActive s \<Longrightarrow> 0 < totalDuration src s \<Longrightarrow>
   0 \<le> fadeOutStart src s \<and> fadeOutStart src s < totalDuration src s"
  by (auto simp: fadeOutActive_def fadeOutStart_def min_def)

subsection \<open>Calls in time order are taken as they come\<close>

lemma orderly_fadeIn:
  assumes "0 < a" "c = exponential \<longrightarrow> vol \<noteq> 0"
  shows "orderly (SetValueAtTime vol 0 # fadeInEvents c vol a)"
  using assms by (cases c) (simp_all add: fadeInEvents_def)

lemma orderly_fadeOut:
  assumes "0 \<le> b" "b < T"
  shows "orderly (fadeOutEvents c vol b (T - b) T)"
  using assms by (cases c) (simp_all add: fadeOutEvents_def)

lemma fadeIn_ends:
  assumes "0 < a" "a \<le> t"
  shows "list_all (\<lambda>x. eventTime x \<le> eventEnd x \<and> eventEnd x \<le> t)
           (SetValueAtTime vol 0 # fadeInEvents c vol a)"
  using assms by (cases c) (simp_all add: fadeInEvents_def)


lemma fadeOut_times:
  assumes "b < T"
  shows "list_all (\<lambda>y. b \<le> eventTime y) (fadeOutEvents c vol b (T - b) T)"
  using assms by (cases c) (simp_all add: fadeOutEvents_def)

lemma orderly_gainCalls:
  assumes T: "0 < totalDuration src s"
    and no: "\<not> windowsOverlap src s"
    and ez: "\<not> (fadeInActive s \<and> curve (fadeIn s) = exponential \<and> volume s = 0)"
  shows "orderly (gainCalls src s)"
proof -
  let ?In = "fadeInEvents (curve (fadeIn s)) (volume s) (fadeInEnd src s)"
  let ?Out = "fadeOutEvents (curve (fadeOut s)) (volume s) (fadeOutStart src s)
                (totalDuration src s - fadeOutStart src s) (totalDuration src s)"
  let ?sv = "SetValueAtTime (volume s) 0"
  show ?thesis
  proof (cases "fadeInActive s")
    case inA: True
    note a = fadeInEnd_bounds [OF inA T]
    have oin: "orderly (?sv # ?In)"
      using a ez inA by (intro orderly_fadeIn) auto
    show ?thesis
    proof (cases "fadeOutActive s")
      case outA: True
      note b = fadeOutStart_bounds [OF outA T]
      have ab: "fadeInEnd src s \<le> fadeOutStart src s"
        using no inA outA by (simp add: windowsOverlap_def)
      have oout: "orderly ?Out" using b by (intro orderly_fadeOut) auto
      have ends: "list_all (\<lambda>x. eventTime x \<le> eventEnd x \<and> eventEnd x \<le> fadeOutStart src s)
                    (?sv # ?In)"
        using a ab by (intro fadeIn_ends) auto
      have times: "list_all (\<lambda>y. fadeOutStart src s \<le> eventTime y) ?Out"
        using b by (intro fadeOut_times) auto
      have cross: "list_all (\<lambda>x. list_all (\<lambda>y. eventEnd x \<le> eventTime y) ?Out) (?sv # ?In)"
        unfolding list_all_iff
      proof (intro ballI)
        fix x y assume "x \<in> set (?sv # ?In)" "y \<in> set ?Out"
        then have "eventEnd x \<le> fadeOutStart src s" "fadeOutStart src s \<le> eventTime y"
          using ends times by (auto simp: list_all_iff)
        then show "eventEnd x \<le> eventTime y" by linarith
      qed
      have "orderly ((?sv # ?In) @ ?Out)"
        using oin oout cross by (simp only: orderly_append)
      then show ?thesis
        using inA outA by (simp add: gainCalls_def fadeInCalls_eq fadeOutCalls_eq)
    next
      case False
      then show ?thesis
        using inA oin by (simp add: gainCalls_def fadeInCalls_eq fadeOutCalls_eq)
    qed
  next
    case inA: False
    show ?thesis
    proof (cases "fadeOutActive s")
      case outA: True
      note b = fadeOutStart_bounds [OF outA T]
      have oout: "orderly ?Out" using b by (intro orderly_fadeOut) auto
      have times: "list_all (\<lambda>y. fadeOutStart src s \<le> eventTime y) ?Out"
        using b by (intro fadeOut_times) auto
      have "orderly (?sv # ?Out)"
        using oout times b by (auto simp: list_all_iff)
      then show ?thesis
        using inA outA by (simp add: gainCalls_def fadeInCalls_eq fadeOutCalls_eq)
    next
      case False
      then show ?thesis
        using inA by (simp add: gainCalls_def fadeInCalls_eq fadeOutCalls_eq)
    qed
  qed
qed

lemma scheduleAll_gainCalls:
  assumes "0 < totalDuration src s" "\<not> windowsOverlap src s"
    and "\<not> (fadeInActive s \<and> curve (fadeIn s) = exponential \<and> volume s = 0)"
  shows "scheduleAll [] (gainCalls src s) = Inr (gainCalls src s)"
  using scheduleAll_orderly [of "[]" "gainCalls src s"] orderly_gainCalls [OF assms]
  by simp

subsection \<open>The value of the timeline when the windows do not overlap\<close>






section \<open>The rendered buffer\<close>

lemma renderedSample_Inr:
  assumes "valid_buffer src" "0 < croppedLength src s" "0 \<le> cropStart s"
    and "scheduleAll [] (gainCalls src s) = Inr tline"
    and "ch < numberOfChannels src" "i < nat (croppedLength src s)"
  shows "renderedSample src s ch i =
     Some (sourceFrame src (cropStart s) (cropEnd s - cropStart s) ch i
           * valueAtTime tline (real i / real (sampleRate src)))"
  using assms
  by (simp add: renderedSample_def processAudio_Inr [OF assms(1-4)] startRendering_nth)


text \<open>
  Claim C1, as stated, fails: with \<open>0 \<le> cropStart < cropEnd \<le> duration\<close> inside one
  frame the quantised length is 0 and no buffer is returned.
\<close>

theorem processAudio_one_frame_crop_counterexample:
  "valid_buffer tone
   \<and> 0 \<le> cropStart instant \<and> cropStart instant < cropEnd instant
   \<and> cropEnd instant \<le> bufferDuration tone
   \<and> processAudio tone instant = Inl EmptyRegion"
  by (simp add: valid_buffer_tone)
     (simp add: instant_def tone_def bufferDuration_def processAudio_def Let_def
        croppedLength_def endSample_def startSample_def)

text \<open>
  Claim C1, amended. For a source buffer of the host and settings with
  \<open>0 \<le> cropStart\<close> whose quantised length
  \<open>\<lfloor>cropEnd \<sqdot> sampleRate\<rfloor> - \<lfloor>cropStart \<sqdot> sampleRate\<rfloor>\<close> is positive, and whose gain
  automation the host accepts, \<open>processAudio\<close> returns a buffer with exactly that many
  frames in every channel, and with the channel count and the sample rate of the source.
\<close>

theorem processAudio_shape:
  assumes "valid_buffer src" and "0 \<le> cropStart s"
    and "0 < \<lfloor>cropEnd s * real (sampleRate src)\<rfloor> - \<lfloor>cropStart s * real (sampleRate src)\<rfloor>"
    and "gainAccepted src s"
  shows "\<exists>out. processAudio src s = Inr out
           \<and> int (buf_length out) =
               \<lfloor>cropEnd s * real (sampleRate src)\<rfloor> - \<lfloor>cropStart s * real (sampleRate src)\<rfloor>
           \<and> numberOfChannels out = numberOfChannels src
           \<and> sampleRate out = sampleRate src
           \<and> valid_buffer out"
proof -
  have len: "0 < croppedLength src s"
    using assms(3) by (simp add: croppedLength_def endSample_def startSample_def)
  obtain tline where tl: "scheduleAll [] (gainCalls src s) = Inr tline"
    using assms(4) by (auto simp: gainAccepted_def split: sum.splits)
  let ?out = "startRendering (numberOfChannels src) (nat (croppedLength src s)) (sampleRate src)
            src (cropStart s) (cropEnd s - cropStart s) tline"
  have p: "processAudio src s = Inr ?out"
    using processAudio_Inr [OF assms(1) len assms(2) tl] .
  have ch: "channelData ?out \<noteq> []"
    using assms(1) by (simp add: startRendering_def valid_buffer_def numberOfChannels_def)
  have "valid_buffer ?out"
    using assms(1) ch startRendering_shape [of "numberOfChannels src" "nat (croppedLength src s)"
      "sampleRate src" src "cropStart s" "cropEnd s - cropStart s" tline]
    by (simp add: valid_buffer_def)
  moreover have "int (buf_length ?out) = croppedLength src s"
    using len by (simp add: startRendering_shape)
  ultimately show ?thesis
    using p by (simp add: startRendering_shape croppedLength_def endSample_def startSample_def)
qed

lemma gainAccepted_no_overlap:
  assumes "0 < totalDuration src s" "\<not> windowsOverlap src s"
    and "\<not> (fadeInActive s \<and> curve (fadeIn s) = exponential \<and> volume s = 0)"
  shows "gainAccepted src s"
  by (simp add: gainAccepted_def scheduleAll_gainCalls [OF assms])

lemma tone_middleSecond_facts:
  "croppedLength tone middleSecond = 8000 \<and> startSample tone middleSecond = 4000
   \<and> totalDuration tone middleSecond = 1
   \<and> fadeInActive middleSecond \<and> \<not> fadeOutActive middleSecond
   \<and> fadeInEnd tone middleSecond = 1/4"
  by (simp add: croppedLength_def endSample_def startSample_def totalDuration_def tone_def
        middleSecond_def fadeInActive_def fadeOutActive_def fadeInEnd_def noFade_def)

theorem processAudio_shape_witness:
  "valid_buffer tone \<and> 0 \<le> cropStart middleSecond
   \<and> 0 < \<lfloor>cropEnd middleSecond * real (sampleRate tone)\<rfloor>
           - \<lfloor>cropStart middleSecond * real (sampleRate tone)\<rfloor>
   \<and> gainAccepted tone middleSecond
   \<and> (\<exists>out. processAudio tone middleSecond = Inr out \<and> buf_length out = 8000
             \<and> numberOfChannels out = 1 \<and> sampleRate out = 8000)"
proof -
  have h1: "0 \<le> cropStart middleSecond" by (simp add: middleSecond_def)
  have cl: "croppedLength tone middleSecond = 8000"
    using tone_middleSecond_facts by blast
  have eq: "\<lfloor>cropEnd middleSecond * real (sampleRate tone)\<rfloor>
           - \<lfloor>cropStart middleSecond * real (sampleRate tone)\<rfloor> = 8000"
    using cl unfolding croppedLength_def endSample_def startSample_def .
  have h2: "0 < \<lfloor>cropEnd middleSecond * real (sampleRate tone)\<rfloor>
           - \<lfloor>cropStart middleSecond * real (sampleRate tone)\<rfloor>"
    unfolding eq by simp
  have h3: "gainAccepted tone middleSecond"
    using tone_middleSecond_facts
    by (intro gainAccepted_no_overlap) (simp_all add: windowsOverlap_def middleSecond_def)
  obtain out where "processAudio tone middleSecond = Inr out"
    "int (buf_length out) = 8000" "numberOfChannels out = numberOfChannels tone"
    "sampleRate out = sampleRate tone"
    using processAudio_shape [OF valid_buffer_tone h1 h2 h3] unfolding eq by blast
  then have "\<exists>out. processAudio tone middleSecond = Inr out \<and> buf_length out = 8000
             \<and> numberOfChannels out = 1 \<and> sampleRate out = 8000"
    by (simp add: tone_def numberOfChannels_def)
  then show ?thesis using valid_buffer_tone h1 h2 h3 by blast
qed

section \<open>Composition of the gain\<close>

lemma tone_fields:
  shows "sampleRate tone = 8000" and "buf_length tone = 16000"
    and "numberOfChannels tone = 1"
  by (simp_all add: tone_def numberOfChannels_def)

lemma tone_sample: "i < 16000 \<Longrightarrow> channelData tone ! 0 ! i = 1"
  by (simp add: tone_def)







section \<open>A fade that is switched on without a duration\<close>






section \<open>Waveform peaks\<close>

lemma map_nth_window:
  "start + n \<le> length xs \<Longrightarrow> map ((!) xs) [start..<start + n] = take n (drop start xs)"
  by (rule nth_equalityI) simp_all

lemma bucketScan_foldl:
  fixes chan :: "real list"
  shows "foldl (\<lambda>(mx, mn) j.
            let val = chan ! j
            in (if val > mx then val else mx, if val < mn then val else mn))
         (a, b) js
   = (foldl max a (map ((!) chan) js), foldl min b (map ((!) chan) js))"
  by (induction js arbitrary: a b) (auto simp: Let_def max_def min_def)

lemma foldl_max_Max:
  fixes a :: real
  shows "foldl max a xs = Max (insert a (set xs))"
proof (induction xs arbitrary: a)
  case Nil
  then show ?case by simp
next
  case (Cons x xs)
  have "Max (insert (max a x) (set xs)) = Max (insert a (insert x (set xs)))"
    by (cases "set xs = {}") (simp_all add: max.assoc)
  then show ?case by (simp add: Cons.IH)
qed

lemma foldl_min_Min:
  fixes a :: real
  shows "foldl min a xs = Min (insert a (set xs))"
proof (induction xs arbitrary: a)
  case Nil
  then show ?case by simp
next
  case (Cons x xs)
  have "Min (insert (min a x) (set xs)) = Min (insert a (insert x (set xs)))"
    by (cases "set xs = {}") (simp_all add: min.assoc)
  then show ?case by (simp add: Cons.IH)
qed

lemma bucketScan_window:
  assumes "start + n \<le> length chan"
  shows "bucketScan chan start (start + n) =
           (Max (insert (- 1) (set (take n (drop start chan)))),
            Min (insert 1 (set (take n (drop start chan)))))"
  by (simp add: bucketScan_def bucketScan_foldl map_nth_window [OF assms]
        foldl_max_Max foldl_min_Min)

lemma window_in_range:
  assumes "i < numBuckets"
  shows "i * (length chan div numBuckets) + length chan div numBuckets \<le> length chan"
proof -
  have "Suc i * (length chan div numBuckets) \<le> numBuckets * (length chan div numBuckets)"
    using assms by (intro mult_le_mono1) simp
  also have "\<dots> \<le> length chan" by simp
  finally show ?thesis by simp
qed

lemma extractWaveformPeaks_Inr:
  assumes "channelData buffer \<noteq> []"
  shows "extractWaveformPeaks buffer numBuckets =
     Inr \<lparr>positive = map (\<lambda>i. Max (insert (- 1) (set (specBucketWindow (firstChannel buffer) numBuckets i))))
                         [0..<numBuckets],
          negative = map (\<lambda>i. Min (insert 1 (set (specBucketWindow (firstChannel buffer) numBuckets i))))
                         [0..<numBuckets]\<rparr>"
proof -
  obtain chan rest where c: "channelData buffer = chan # rest"
    using assms by (cases "channelData buffer") auto
  let ?spb = "length chan div numBuckets"
  have scan: "bucketScan chan (i * ?spb) (min (i * ?spb + ?spb) (length chan)) =
      (Max (insert (- 1) (set (specBucketWindow chan numBuckets i))),
       Min (insert 1 (set (specBucketWindow chan numBuckets i))))" if "i < numBuckets" for i
    using window_in_range [OF that, of chan] bucketScan_window [of "i * ?spb" ?spb chan]
    by (simp add: specBucketWindow_def min_absorb1)
  show ?thesis
    using scan by (simp add: extractWaveformPeaks_def c firstChannel_def Let_def comp_def)
qed

text \<open>
  Claim C7, as stated, fails on its description of the two values: in a window whose
  samples all lie below \<open>-1\<close> the recorded \<open>positive\<close> value is the initial \<open>-1\<close>, not
  the window's maximum.
\<close>

theorem extractWaveformPeaks_not_maximum_counterexample:
  "specBucketWindow (firstChannel overshoot) 2 0 = [-2, -1.5]
   \<and> extractWaveformPeaks overshoot 2 =
       Inr \<lparr>positive = [-1, 0.3], negative = [-2, 0.2]\<rparr>
   \<and> Max (set (specBucketWindow (firstChannel overshoot) 2 0)) = -1.5"
  by (simp add: extractWaveformPeaks_def overshoot_def bucketScan_def Let_def specBucketWindow_def
        firstChannel_def upt_conv_Cons)

text \<open>
  Claim C7, amended. For every buffer of the host and every positive bucket count \<open>N\<close>,
  \<open>extractWaveformPeaks\<close> does not fail and returns two sequences of length exactly \<open>N\<close>
  over the first channel, cut into contiguous windows of \<open>\<lfloor>length / N\<rfloor>\<close> samples (a
  final partial window is dropped). An empty window yields \<open>positive = -1\<close>,
  \<open>negative = 1\<close>. A non-empty window yields \<open>positive \<ge> negative\<close>, where \<open>positive\<close> is the
  larger of \<open>-1\<close> and the window's maximum and \<open>negative\<close> the smaller of \<open>1\<close> and the
  window's minimum: the window's maximum and minimum themselves whenever its samples lie
  in \<open>[-1, 1]\<close>.
\<close>

theorem extractWaveformPeaks_buckets:
  assumes "valid_buffer buffer" and "0 < numBuckets"
  shows "\<exists>pb. extractWaveformPeaks buffer numBuckets = Inr pb
           \<and> length (positive pb) = numBuckets \<and> length (negative pb) = numBuckets
           \<and> (\<forall>i < numBuckets.
                let w = specBucketWindow (firstChannel buffer) numBuckets i in
                  length w = buf_length buffer div numBuckets
                  \<and> w = take (length w) (drop (i * length w) (firstChannel buffer))
                  \<and> (w = [] \<longrightarrow> positive pb ! i = - 1 \<and> negative pb ! i = 1)
                  \<and> (w \<noteq> [] \<longrightarrow>
                        positive pb ! i = max (- 1) (Max (set w))
                        \<and> negative pb ! i = min 1 (Min (set w))
                        \<and> negative pb ! i \<le> positive pb ! i)
                  \<and> (w \<noteq> [] \<and> (\<forall>x \<in> set w. - 1 \<le> x \<and> x \<le> 1) \<longrightarrow>
                        positive pb ! i = Max (set w) \<and> negative pb ! i = Min (set w)))"
proof -
  have ne: "channelData buffer \<noteq> []" using assms(1) by (simp add: valid_buffer_def)
  let ?chan = "firstChannel buffer"
  have len: "length ?chan = buf_length buffer"
    using assms(1) ne by (cases "channelData buffer") (simp_all add: valid_buffer_def firstChannel_def)
  let ?pb = "\<lparr>positive = map (\<lambda>i. Max (insert (- 1) (set (specBucketWindow ?chan numBuckets i))))
                         [0..<numBuckets],
          negative = map (\<lambda>i. Min (insert 1 (set (specBucketWindow ?chan numBuckets i))))
                         [0..<numBuckets]\<rparr>"
  have p: "extractWaveformPeaks buffer numBuckets = Inr ?pb"
    using extractWaveformPeaks_Inr [OF ne] .
  have bucket: "let w = specBucketWindow ?chan numBuckets i in
                  length w = buf_length buffer div numBuckets
                  \<and> w = take (length w) (drop (i * length w) ?chan)
                  \<and> (w = [] \<longrightarrow> positive ?pb ! i = - 1 \<and> negative ?pb ! i = 1)
                  \<and> (w \<noteq> [] \<longrightarrow>
                        positive ?pb ! i = max (- 1) (Max (set w))
                        \<and> negative ?pb ! i = min 1 (Min (set w))
                        \<and> negative ?pb ! i \<le> positive ?pb ! i)
                  \<and> (w \<noteq> [] \<and> (\<forall>x \<in> set w. - 1 \<le> x \<and> x \<le> 1) \<longrightarrow>
                        positive ?pb ! i = Max (set w) \<and> negative ?pb ! i = Min (set w))"
    if i: "i < numBuckets" for i
  proof -
    define w where "w = specBucketWindow ?chan numBuckets i"
    have lw: "length w = buf_length buffer div numBuckets"
      using window_in_range [OF i, of ?chan] by (simp add: w_def specBucketWindow_def len)
    have tw: "w = take (length w) (drop (i * length w) ?chan)"
      unfolding lw by (simp add: w_def specBucketWindow_def len)
    have pos: "positive ?pb ! i = Max (insert (- 1) (set w))"
      and neg: "negative ?pb ! i = Min (insert 1 (set w))"
      using i by (simp_all add: w_def)
    have empty: "positive ?pb ! i = - 1 \<and> negative ?pb ! i = 1" if "w = []"
      using that pos neg by simp
    have nonempty: "positive ?pb ! i = max (- 1) (Max (set w))
                    \<and> negative ?pb ! i = min 1 (Min (set w))
                    \<and> negative ?pb ! i \<le> positive ?pb ! i" if "w \<noteq> []"
    proof -
      have s: "set w \<noteq> {}" "finite (set w)" using that by simp_all
      have a: "Max (insert (- 1) (set w)) = max (- 1) (Max (set w))"
        using s by simp
      have b: "Min (insert 1 (set w)) = min 1 (Min (set w))"
        using s by simp
      have "Min (set w) \<le> Max (set w)"
        using s by (meson Max_in Min_le)
      then have "min 1 (Min (set w)) \<le> max (- 1) (Max (set w))"
        by (simp add: min_le_iff_disj le_max_iff_disj)
      then show ?thesis using pos neg a b by simp
    qed
    have nominal: "positive ?pb ! i = Max (set w) \<and> negative ?pb ! i = Min (set w)"
      if "w \<noteq> []" and r: "\<forall>x \<in> set w. - 1 \<le> x \<and> x \<le> 1"
    proof -
      have s: "set w \<noteq> {}" "finite (set w)" using that by simp_all
      have "- 1 \<le> Max (set w)" "Min (set w) \<le> 1"
        using r s Max_in [OF s(2) s(1)] Min_in [OF s(2) s(1)] by auto
      then show ?thesis using nonempty [OF that(1)] by simp
    qed
    show ?thesis
      unfolding Let_def w_def [symmetric]
      using lw tw empty nonempty nominal by blast
  qed
  have "length (positive ?pb) = numBuckets" "length (negative ?pb) = numBuckets"
    by simp_all
  with p bucket show ?thesis by blast
qed

theorem extractWaveformPeaks_buckets_witness:
  "valid_buffer overshoot \<and> (0::nat) < 2
   \<and> (\<exists>pb. extractWaveformPeaks overshoot 2 = Inr pb
          \<and> length (positive pb) = 2 \<and> length (negative pb) = 2
          \<and> positive pb ! 0 = - 1 \<and> negative pb ! 0 = - 2
          \<and> positive pb ! 1 = 0.3 \<and> negative pb ! 1 = 0.2)"
proof -
  have v: "valid_buffer overshoot" by (simp add: valid_buffer_def overshoot_def)
  have w0: "specBucketWindow (firstChannel overshoot) 2 0 = [-2, -1.5]"
    and w1: "specBucketWindow (firstChannel overshoot) 2 (Suc 0) = [0.3, 0.2]"
    by (simp_all add: specBucketWindow_def firstChannel_def overshoot_def)
  obtain pb where p: "extractWaveformPeaks overshoot 2 = Inr pb"
    and l: "length (positive pb) = 2" "length (negative pb) = 2"
    and b: "\<And>i. i < 2 \<Longrightarrow>
              (specBucketWindow (firstChannel overshoot) 2 i \<noteq> [] \<longrightarrow>
                 positive pb ! i = max (- 1) (Max (set (specBucketWindow (firstChannel overshoot) 2 i)))
                 \<and> negative pb ! i = min 1 (Min (set (specBucketWindow (firstChannel overshoot) 2 i))))"
    using extractWaveformPeaks_buckets [OF v, of 2] unfolding Let_def by auto
  have "positive pb ! 0 = - 1 \<and> negative pb ! 0 = - 2"
    using b [of 0] by (simp add: w0)
  moreover have "positive pb ! 1 = 0.3 \<and> negative pb ! 1 = 0.2"
    using b [of 1] by (simp add: w1)
  ultimately show ?thesis using v p l by auto
qed

section \<open>The WAV encoder\<close>

lemma le16_length [simp]: "length (le16 w) = 2"
  by (simp add: le16_def)

lemma le32_length [simp]: "length (le32 w) = 4"
  by (simp add: le32_def)

lemma ascii_length [simp]: "length (ascii str) = length str"
  by (simp add: ascii_def)

lemma setBytes_after:
  assumes "length pre = off" "length bs \<le> length zs"
  shows "setBytes (pre @ zs) off bs = Some (pre @ bs @ drop (length bs) zs)"
  using assms by (simp add: setBytes_def)

lemma writeString_after:
  "length pre = off \<Longrightarrow> length str \<le> length zs \<Longrightarrow>
   writeString (pre @ zs) off str = Some (pre @ ascii str @ drop (length str) zs)"
proof (induction str arbitrary: pre off zs)
  case Nil
  then show ?case by (simp add: ascii_def)
next
  case (Cons c str)
  let ?b = "of_nat (of_char c) :: byte"
  have step: "setUint8 (pre @ zs) off (of_char c) = Some ((pre @ [?b]) @ drop 1 zs)"
    using Cons.prems setBytes_after [of pre off "[?b]" zs] by (simp add: setUint8_def)
  have "writeString ((pre @ [?b]) @ drop 1 zs) (off + 1) str =
          Some ((pre @ [?b]) @ ascii str @ drop (length str) (drop 1 zs))"
    using Cons.prems by (intro Cons.IH) simp_all
  then show ?case
    using step by (simp add: ascii_def)
qed

lemma sampleBytes_length [simp]: "length (sampleBytes b i ch) = 2"
  by (simp add: sampleBytes_def)

lemma frame_length: "length (concat (map (sampleBytes b i) chs)) = 2 * length chs"
  by (induction chs) simp_all

lemma frameBytes_length [simp]: "length (frameBytes b i) = 2 * numberOfChannels b"
  by (simp add: frameBytes_def frame_length)

lemma frames_length: "length (concat (map (frameBytes b) is)) = 2 * numberOfChannels b * length is"
  by (induction "is") (simp_all add: algebra_simps)

lemma writeChannels_after:
  "length pre = offset \<Longrightarrow> 2 * length chs \<le> length zs \<Longrightarrow>
   writeChannels b i chs (pre @ zs, offset) =
     Some (pre @ concat (map (sampleBytes b i) chs) @ drop (2 * length chs) zs,
           offset + 2 * length chs)"
proof (induction chs arbitrary: pre offset zs)
  case Nil
  then show ?case by simp
next
  case (Cons ch chs)
  let ?bs = "sampleBytes b i ch"
  have step: "setInt16 (pre @ zs) offset (int16 (channelData b ! ch ! i)) =
                Some ((pre @ ?bs) @ drop 2 zs)"
    using Cons.prems setBytes_after [of pre offset ?bs zs]
    by (simp add: setInt16_def sampleBytes_def)
  have "writeChannels b i chs ((pre @ ?bs) @ drop 2 zs, offset + 2) =
          Some ((pre @ ?bs) @ concat (map (sampleBytes b i) chs)
                  @ drop (2 * length chs) (drop 2 zs),
                offset + 2 + 2 * length chs)"
    using Cons.prems by (intro Cons.IH) simp_all
  then show ?case
    using step by (simp add: add.commute)
qed

lemma writeFrames_after:
  "length pre = offset \<Longrightarrow> 2 * numberOfChannels b * length is \<le> length zs \<Longrightarrow>
   writeFrames b is (pre @ zs, offset) =
     Some (pre @ concat (map (frameBytes b) is) @ drop (2 * numberOfChannels b * length is) zs,
           offset + 2 * numberOfChannels b * length is)"
proof (induction "is" arbitrary: pre offset zs)
  case Nil
  then show ?case by simp
next
  case (Cons i "is")
  let ?C = "numberOfChannels b"
  let ?fb = "frameBytes b i"
  have le: "2 * ?C \<le> length zs" using Cons.prems by (simp add: algebra_simps)
  have step: "writeChannels b i [0..<?C] (pre @ zs, offset) =
                Some ((pre @ ?fb) @ drop (2 * ?C) zs, offset + 2 * ?C)"
    using Cons.prems(1) le writeChannels_after [of pre offset "[0..<?C]" zs b i]
    by (simp add: frameBytes_def)
  have "writeFrames b is ((pre @ ?fb) @ drop (2 * ?C) zs, offset + 2 * ?C) =
          Some ((pre @ ?fb) @ concat (map (frameBytes b) is)
                  @ drop (2 * ?C * length is) (drop (2 * ?C) zs),
                offset + 2 * ?C + 2 * ?C * length is)"
    using Cons.prems by (intro Cons.IH) (simp_all add: algebra_simps)
  then show ?case
    using step by (simp add: algebra_simps)
qed

lemma writeString_setBytes:
  assumes "off + length str \<le> length view"
  shows "writeString view off str = setBytes view off (ascii str)"
proof -
  have "writeString (take off view @ drop off view) off str =
          Some (take off view @ ascii str @ drop (length str) (drop off view))"
    using assms by (intro writeString_after) simp_all
  then show ?thesis
    using assms by (simp add: setBytes_def add.commute)
qed

lemma le32_little_endian:
  assumes "n < 2 ^ 32"
  shows "map unat (le32 (of_nat n)) =
           [n mod 256, n div 256 mod 256, n div 65536 mod 256, n div 16777216 mod 256]"
  using assms by (simp add: le32_def unsigned_ucast_eq unat_drop_bit_eq unat_of_nat take_bit_eq_mod drop_bit_nat_def)

lemma le16_little_endian:
  assumes "n < 2 ^ 16"
  shows "map unat (le16 (of_nat n)) = [n mod 256, n div 256 mod 256]"
  using assms by (simp add: le16_def unsigned_ucast_eq unat_drop_bit_eq unat_of_nat take_bit_eq_mod drop_bit_nat_def)

lemma specWavHeader_length [simp]: "length (specWavHeader x1 x2 x3 x4 x5 x6 x7 x8 x9) = 44"
  by (simp add: specWavHeader_def)

lemma header_writes:
  fixes d :: nat
  shows "do {
        view \<leftarrow> writeString (replicate (44 + d) (0 :: byte)) 0 ''RIFF'';
        view \<leftarrow> setUint32 view 4 x1;
        view \<leftarrow> writeString view 8 ''WAVE'';
        view \<leftarrow> writeString view 12 ''fmt '';
        view \<leftarrow> setUint32 view 16 x2;
        view \<leftarrow> setUint16 view 20 x3;
        view \<leftarrow> setUint16 view 22 x4;
        view \<leftarrow> setUint32 view 24 x5;
        view \<leftarrow> setUint32 view 28 x6;
        view \<leftarrow> setUint16 view 32 x7;
        view \<leftarrow> setUint16 view 34 x8;
        view \<leftarrow> writeString view 36 ''data'';
        view \<leftarrow> setUint32 view 40 x9;
        k view
      } = k (specWavHeader x1 x2 x3 x4 x5 x6 x7 x8 x9 @ replicate d 0)"
  by (simp add: setUint8_def setBytes_def setUint32_def setUint16_def ascii_def specWavHeader_def)

lemma frames_writes:
  assumes "length H = 44" "d = buf_length buffer * (numberOfChannels buffer * 2)"
  shows "writeFrames buffer [0..<buf_length buffer] (H @ replicate d 0, 44) =
           Some (H @ specInterleaved buffer, 44 + d)"
proof -
  have "writeFrames buffer [0..<buf_length buffer] (H @ replicate d 0, 44) =
          Some (H @ concat (map (frameBytes buffer) [0..<buf_length buffer])
                  @ drop (2 * numberOfChannels buffer * length [0..<buf_length buffer])
                      (replicate d 0),
                44 + 2 * numberOfChannels buffer * length [0..<buf_length buffer])"
    using assms by (intro writeFrames_after) (simp_all add: algebra_simps)
  then show ?thesis
    using assms(2) by (simp add: specInterleaved_def algebra_simps)
qed

text \<open>
  Claim C5. For every buffer of the host (any frame count, also 0) the encoder does not
  fail and produces exactly \<open>44 + frameCount \<sqdot> channelCount \<sqdot> 2\<close> bytes: the header
  fields of the layout table in order, each little-endian in its field width, followed
  by the samples interleaved frame by frame in channel order. A buffer without frames
  gives the 44 header bytes alone.
\<close>

theorem audioBufferToWav_layout:
  assumes "valid_buffer buffer"
  shows "\<exists>bytes. audioBufferToWav buffer = Some bytes
           \<and> length bytes = 44 + buf_length buffer * numberOfChannels buffer * 2
           \<and> bytes =
               specWavHeader ((44 + buf_length buffer * (numberOfChannels buffer * 2)) - 8)
                 16 1 (numberOfChannels buffer) (sampleRate buffer)
                 (sampleRate buffer * (numberOfChannels buffer * 2))
                 (numberOfChannels buffer * 2) 16
                 (buf_length buffer * (numberOfChannels buffer * 2))
               @ specInterleaved buffer
           \<and> (buf_length buffer = 0 \<longrightarrow> length bytes = 44 \<and> specInterleaved buffer = [])"
proof -
  let ?N = "numberOfChannels buffer" and ?F = "buf_length buffer"
  let ?d = "?F * (?N * 2)"
  let ?hdr = "specWavHeader ((44 + ?d) - 8) 16 1 ?N (sampleRate buffer)
                (sampleRate buffer * (?N * 2)) (?N * 2) 16 ?d"
  have enc: "audioBufferToWav buffer = Some (?hdr @ specInterleaved buffer)"
    unfolding audioBufferToWav_def Let_def
    by (simp only: header_writes) (simp add: frames_writes)
  have len: "length (?hdr @ specInterleaved buffer) = 44 + ?F * ?N * 2"
    by (simp add: specInterleaved_def frames_length algebra_simps)
  have zero: "specInterleaved buffer = []" if "?F = 0"
    using that by (simp add: specInterleaved_def)
  show ?thesis
    using enc len zero by auto
qed

theorem audioBufferToWav_layout_witness:
  "valid_buffer stereoPair \<and> valid_buffer emptyMono
   \<and> audioBufferToWav stereoPair =
       Some [82, 73, 70, 70, 44, 0, 0, 0, 87, 65, 86, 69, 102, 109, 116, 32, 16, 0, 0, 0,
             1, 0, 2, 0, 68, 172, 0, 0, 16, 177, 2, 0, 4, 0, 16, 0, 100, 97, 116, 97,
             8, 0, 0, 0, 255, 63, 255, 127, 154, 217, 0, 128]
   \<and> audioBufferToWav emptyMono =
       Some [82, 73, 70, 70, 36, 0, 0, 0, 87, 65, 86, 69, 102, 109, 116, 32, 16, 0, 0, 0,
             1, 0, 1, 0, 64, 31, 0, 0, 128, 62, 0, 0, 2, 0, 16, 0, 100, 97, 116, 97,
             0, 0, 0, 0]"
proof -
  have v: "valid_buffer stereoPair" "valid_buffer emptyMono"
    by (simp_all add: valid_buffer_def stereoPair_def emptyMono_def)
  have a: "audioBufferToWav stereoPair =
       Some [82, 73, 70, 70, 44, 0, 0, 0, 87, 65, 86, 69, 102, 109, 116, 32, 16, 0, 0, 0,
             1, 0, 2, 0, 68, 172, 0, 0, 16, 177, 2, 0, 4, 0, 16, 0, 100, 97, 116, 97,
             8, 0, 0, 0, 255, 63, 255, 127, 154, 217, 0, 128]"
    using audioBufferToWav_layout [OF v(1)]
    by (simp add: stereoPair_def numberOfChannels_def specWavHeader_def ascii_def le32_def le16_def
          specInterleaved_def frameBytes_def sampleBytes_def int16_def truncate_def
          upt_conv_Cons)
  have b: "audioBufferToWav emptyMono =
       Some [82, 73, 70, 70, 36, 0, 0, 0, 87, 65, 86, 69, 102, 109, 116, 32, 16, 0, 0, 0,
             1, 0, 1, 0, 64, 31, 0, 0, 128, 62, 0, 0, 2, 0, 16, 0, 100, 97, 116, 97,
             0, 0, 0, 0]"
    using audioBufferToWav_layout [OF v(2)]
    by (simp add: emptyMono_def numberOfChannels_def specWavHeader_def ascii_def le32_def le16_def
          specInterleaved_def)
  show ?thesis using v a b by simp
qed

section \<open>Gains at the edges of the fades\<close>

subsection \<open>Scheduling in general\<close>

lemma scheduleAll_append:
  "scheduleAll pre (xs @ ys) =
     (case scheduleAll pre xs of Inl x \<Rightarrow> Inl x | Inr mid \<Rightarrow> scheduleAll mid ys)"
  by (induction xs arbitrary: pre) (auto split: sum.splits)

lemma scheduleEvent_Inr:
  "scheduleEvent pre e = Inr tline \<Longrightarrow> argumentError e = None \<and> tline = insertEvent e pre"
  by (auto simp: scheduleEvent_def split: option.splits if_splits)

lemma set_insertEvent: "set (insertEvent e evs) = insert e (set evs)"
  by (induction evs) auto

lemma insertEvent_prefix:
  "list_all (\<lambda>x. eventTime x \<le> eventTime e) pre \<Longrightarrow>
   insertEvent e (pre @ rest) = pre @ insertEvent e rest"
  by (induction pre) auto

lemma scheduleAll_set:
  "scheduleAll pre calls = Inr tline \<Longrightarrow>
   set tline = set pre \<union> set calls \<and> list_all (\<lambda>e. argumentError e = None) calls"
proof (induction calls arbitrary: pre)
  case Nil
  then show ?case by simp
next
  case (Cons e es)
  then obtain mid where mid: "scheduleEvent pre e = Inr mid" "scheduleAll mid es = Inr tline"
    by (auto split: sum.splits)
  from scheduleEvent_Inr [OF mid(1)] Cons.IH [OF mid(2)]
  show ?case by (auto simp: set_insertEvent)
qed

lemma scheduleAll_keeps_prefix:
  assumes "scheduleAll (pre @ rest) calls = Inr tline"
    and "list_all (\<lambda>x. eventTime x \<le> t0) pre"
    and "list_all (\<lambda>x. t0 < eventTime x) calls"
  shows "\<exists>rest'. tline = pre @ rest' \<and> set rest' = set rest \<union> set calls"
  using assms
proof (induction calls arbitrary: rest)
  case Nil
  then show ?case by auto
next
  case (Cons e es)
  then obtain mid where mid: "scheduleEvent (pre @ rest) e = Inr mid"
    "scheduleAll mid es = Inr tline"
    by (auto split: sum.splits)
  have "list_all (\<lambda>x. eventTime x \<le> eventTime e) pre"
    using Cons.prems(2,3) by (auto simp: list_all_iff)
  then have "mid = pre @ insertEvent e rest"
    using scheduleEvent_Inr [OF mid(1)] by (simp add: insertEvent_prefix)
  with mid(2) Cons.prems have
    "\<exists>rest'. tline = pre @ rest' \<and> set rest' = set (insertEvent e rest) \<union> set es"
    by (intro Cons.IH) simp_all
  then show ?case by (auto simp: set_insertEvent)
qed

lemma paramValue_at_anchor:
  assumes "ys = [] \<or> (t < eventTime (hd ys) \<and> argumentError (hd ys) = None)"
  shows "paramValue t V ys t = V"
proof (cases ys)
  case Nil
  then show ?thesis by simp
next
  case (Cons y ys')
  with assms have y: "t < eventTime y" "argumentError y = None" by simp_all
  show ?thesis
  proof (cases y)
    case (ExponentialRampToValueAtTime v T)
    with y have "v \<noteq> 0" "t < T" by (auto split: if_splits)
    then show ?thesis
      using Cons ExponentialRampToValueAtTime by simp
  qed (use y Cons in auto)
qed

subsection \<open>The end of the fade-in window\<close>

lemma fadeIn_last:
  "eventEnd (last (SetValueAtTime vol 0 # fadeInEvents c vol a)) = a
   \<and> endValue (last (SetValueAtTime vol 0 # fadeInEvents c vol a)) = vol"
  by (cases c) (simp_all add: fadeInEvents_def)

lemma fadeOutCurveValues_first: "fadeOutCurveValues c vol ! 0 = vol"
  by (simp add: fadeOutCurveValues_nth)

lemma gain_fadeOut_at_start:
  assumes "a \<le> b" "b < T"
  shows "paramValue a vol (fadeOutEvents c' vol b (T - b) T) a = vol"
proof (cases "a < b")
  case True
  then show ?thesis by (cases c') (simp_all add: fadeOutEvents_def)
next
  case False
  with assms have ab: "a = b" by simp
  show ?thesis
    using assms(2) unfolding ab
    by (cases c')
       (simp_all add: fadeOutEvents_def curveValueAt_def fadeOutCurveValues_first)
qed

lemma nonoverlap_gain_at_fadeIn_end:
  assumes "0 < a" "a \<le> b" "b < T"
  shows "paramValue 0 1
           ((SetValueAtTime vol 0 # fadeInEvents c vol a) @ fadeOutEvents c' vol b (T - b) T) a
         = vol"
proof -
  let ?xs = "SetValueAtTime vol 0 # fadeInEvents c vol a"
  let ?ys = "fadeOutEvents c' vol b (T - b) T"
  have "paramValue 0 1 (?xs @ ?ys) a =
          paramValue (eventEnd (last ?xs)) (endValue (last ?xs)) ?ys a"
    using assms(1) fadeIn_ends [of a a vol c]
    by (intro paramValue_append_after) simp_all
  also have "\<dots> = paramValue a vol ?ys a"
    by (simp only: fadeIn_last)
  also have "\<dots> = vol"
    using gain_fadeOut_at_start [OF assms(2,3)] .
  finally show ?thesis .
qed

lemma overlap_gain_at_fadeIn_end:
  assumes "0 \<le> b" "b < a" "a \<le> T"
    and "scheduleAll [] (SetValueAtTime vol 0 # fadeInEvents c vol a
                           @ fadeOutEvents c' vol b (T - b) T) = Inr tline"
    and "a < T \<or> c' = logarithmic \<or> c' = sCurve"
  shows "paramValue 0 1 tline a = vol"
proof (cases c)
  case linear
  then show ?thesis
    using assms
    by (cases c') (auto simp: fadeInEvents_def fadeOutEvents_def scheduleEvent_def
                     split: if_splits)
next
  case exponential
  then show ?thesis
    using assms
    by (cases c') (auto simp: fadeInEvents_def fadeOutEvents_def scheduleEvent_def
                     split: if_splits)
next
  case logarithmic
  then show ?thesis
    using assms
    by (cases c') (auto simp: fadeInEvents_def fadeOutEvents_def scheduleEvent_def
                     split: if_splits)
next
  case sCurve
  then show ?thesis
    using assms
    by (cases c') (auto simp: fadeInEvents_def fadeOutEvents_def scheduleEvent_def
                     split: if_splits)
qed

lemma accepted_exponential_volume:
  assumes "scheduleAll [] (gainCalls src s) = Inr tline"
  shows "\<not> (fadeInActive s \<and> curve (fadeIn s) = exponential \<and> volume s = 0)"
proof
  assume h: "fadeInActive s \<and> curve (fadeIn s) = exponential \<and> volume s = 0"
  then have "ExponentialRampToValueAtTime 0 (fadeInEnd src s) \<in> set (gainCalls src s)"
    by (simp add: gainCalls_def fadeInCalls_eq fadeInEvents_def)
  moreover have "list_all (\<lambda>e. argumentError e = None) (gainCalls src s)"
    using scheduleAll_set [OF assms] by simp
  ultimately have "argumentError (ExponentialRampToValueAtTime 0 (fadeInEnd src s)) = None"
    unfolding list_all_iff by blast
  then show False by simp
qed

lemma gain_at_fadeIn_end:
  assumes T: "0 < totalDuration src s"
    and acc: "scheduleAll [] (gainCalls src s) = Inr tline"
    and inA: "fadeInActive s"
    and h: "fadeInEnd src s < totalDuration src s \<or> \<not> fadeOutActive s
            \<or> curve (fadeOut s) = logarithmic \<or> curve (fadeOut s) = sCurve"
  shows "valueAtTime tline (fadeInEnd src s) = volume s"
proof -
  let ?a = "fadeInEnd src s" and ?b = "fadeOutStart src s" and ?T = "totalDuration src s"
  let ?In = "fadeInEvents (curve (fadeIn s)) (volume s) ?a"
  let ?Out = "fadeOutEvents (curve (fadeOut s)) (volume s) ?b (?T - ?b) ?T"
  let ?sv = "SetValueAtTime (volume s) 0"
  note a = fadeInEnd_bounds [OF inA T]
  note ez = accepted_exponential_volume [OF acc]
  show ?thesis
  proof (cases "fadeOutActive s")
    case outA: False
    then have no: "\<not> windowsOverlap src s" by (simp add: windowsOverlap_def)
    have "tline = gainCalls src s"
      using scheduleAll_gainCalls [OF T no ez] acc by simp
    then have tl: "tline = (?sv # ?In) @ []"
      using inA outA by (simp add: gainCalls_def fadeInCalls_eq fadeOutCalls_eq)
    have "paramValue 0 1 ((?sv # ?In) @ []) ?a =
            paramValue (eventEnd (last (?sv # ?In))) (endValue (last (?sv # ?In))) [] ?a"
      using a fadeIn_ends [of ?a ?a "volume s" "curve (fadeIn s)"]
      by (intro paramValue_append_after) simp_all
    also have "\<dots> = volume s"
      by (simp only: fadeIn_last paramValue.simps)
    finally show ?thesis by (simp only: valueAtTime_def tl)
  next
    case outA: True
    note b = fadeOutStart_bounds [OF outA T]
    have calls: "gainCalls src s = ?sv # ?In @ ?Out"
      using inA outA by (simp add: gainCalls_def fadeInCalls_eq fadeOutCalls_eq)
    show ?thesis
    proof (cases "?a \<le> ?b")
      case True
      then have no: "\<not> windowsOverlap src s" by (simp add: windowsOverlap_def)
      have "tline = (?sv # ?In) @ ?Out"
        using scheduleAll_gainCalls [OF T no ez] acc calls by simp
      then show ?thesis
        using nonoverlap_gain_at_fadeIn_end [of ?a ?b ?T "volume s" "curve (fadeIn s)"
            "curve (fadeOut s)"] a b True
        by (simp only: valueAtTime_def)
    next
      case False
      then have ba: "?b < ?a" by simp
      have "paramValue 0 1 tline ?a = volume s"
        using b ba a acc h outA
        by (intro overlap_gain_at_fadeIn_end [of ?b ?a ?T "volume s" "curve (fadeIn s)"
              "curve (fadeOut s)" tline]) (simp_all add: calls)
      then show ?thesis by (simp only: valueAtTime_def)
    qed
  qed
qed

lemma fadeOut_event_times:
  assumes "0 < b" "b < T"
  shows "list_all (\<lambda>x. 0 < eventTime x) (fadeOutEvents c vol b (T - b) T)"
  using assms by (cases c) (simp_all add: fadeOutEvents_def)

lemma gain_at_start_exponential:
  assumes T: "0 < totalDuration src s"
    and acc: "scheduleAll [] (gainCalls src s) = Inr tline"
    and inA: "fadeInActive s" and ex: "curve (fadeIn s) = exponential"
    and h: "\<not> fadeOutActive s \<or> 0 < fadeOutStart src s"
  shows "valueAtTime tline 0 = 1 / 1000"
proof -
  let ?pre = "[SetValueAtTime (volume s) 0, SetValueAtTime 0 0, SetValueAtTime (1 / 1000) 0]"
  let ?rest = "ExponentialRampToValueAtTime (volume s) (fadeInEnd src s) # fadeOutCalls src s"
  note a = fadeInEnd_bounds [OF inA T]
  have calls: "gainCalls src s = ?pre @ ?rest"
    using inA ex by (simp add: gainCalls_def fadeInCalls_eq fadeInEvents_def)
  have pre: "scheduleAll [] ?pre = Inr ?pre"
    by (simp add: scheduleEvent_def)
  have r: "scheduleAll (?pre @ []) ?rest = Inr tline"
    using acc unfolding calls scheduleAll_append pre by simp
  have out: "list_all (\<lambda>x. 0 < eventTime x) (fadeOutCalls src s)"
  proof (cases "fadeOutActive s")
    case True
    with h have "0 < fadeOutStart src s" by simp
    then show ?thesis
      using True fadeOutStart_bounds [OF True T]
        fadeOut_event_times [of "fadeOutStart src s" "totalDuration src s"]
      by (simp add: fadeOutCalls_eq)
  next
    case False
    then show ?thesis by (simp add: fadeOutCalls_eq)
  qed
  have times: "list_all (\<lambda>x. 0 < eventTime x) ?rest"
    using a out by simp
  have pt: "list_all (\<lambda>x. eventTime x \<le> 0) ?pre" by simp
  obtain rest' where tl: "tline = ?pre @ rest'" and st: "set rest' = set [] \<union> set ?rest"
    using scheduleAll_keeps_prefix [OF r pt times] by blast
  have args: "list_all (\<lambda>e. argumentError e = None) ?rest"
    using scheduleAll_set [OF r] by blast
  have ne: "rest' \<noteq> []" using st by auto
  then have "hd rest' \<in> set ?rest" using st by (metis hd_in_set sup_bot_left set_empty)
  then have hd: "0 < eventTime (hd rest')" "argumentError (hd rest') = None"
    using times args unfolding list_all_iff by blast+
  have "paramValue 0 1 (?pre @ rest') 0 =
          paramValue (eventEnd (last ?pre)) (endValue (last ?pre)) rest' 0"
    by (intro paramValue_append_after) simp_all
  also have "\<dots> = paramValue 0 (1 / 1000) rest' 0" by simp
  also have "\<dots> = 1 / 1000"
    using hd by (intro paramValue_at_anchor) simp
  finally show ?thesis by (simp only: valueAtTime_def tl)
qed

lemma gain_at_end_exponential:
  assumes T: "0 < totalDuration src s"
    and acc: "scheduleAll [] (gainCalls src s) = Inr tline"
    and outA: "fadeOutActive s" and ex: "curve (fadeOut s) = exponential"
  shows "valueAtTime tline (totalDuration src s) = 1 / 1000"
proof -
  let ?T = "totalDuration src s"
  let ?front = "SetValueAtTime (volume s) 0 # fadeInCalls src s
                  @ [SetValueAtTime (volume s) (fadeOutStart src s)]"
  let ?e = "ExponentialRampToValueAtTime (1 / 1000) ?T"
  note b = fadeOutStart_bounds [OF outA T]
  have calls: "gainCalls src s = ?front @ [?e]"
    using outA ex by (simp add: gainCalls_def fadeOutCalls_eq fadeOutEvents_def)
  obtain mid where mid: "scheduleAll [] ?front = Inr mid" "scheduleEvent mid ?e = Inr tline"
    using acc unfolding calls scheduleAll_append by (auto split: sum.splits)
  have sm: "set mid = set ?front" using scheduleAll_set [OF mid(1)] by simp
  have inb: "list_all (\<lambda>x. eventTime x \<le> eventEnd x \<and> eventEnd x \<le> ?T) (fadeInCalls src s)"
  proof (cases "fadeInActive s")
    case True
    then show ?thesis
      using fadeInEnd_bounds [OF True T]
        fadeIn_ends [of "fadeInEnd src s" ?T "volume s" "curve (fadeIn s)"]
      by (simp add: fadeInCalls_eq)
  next
    case False
    then show ?thesis by (simp add: fadeInCalls_eq)
  qed
  have fr: "list_all (\<lambda>x. eventTime x \<le> eventEnd x \<and> eventEnd x \<le> ?T) ?front"
    using inb b T by simp
  then have mb: "list_all (\<lambda>x. eventTime x \<le> eventEnd x \<and> eventEnd x \<le> ?T) mid"
    using sm by (simp only: list_all_iff)
  then have "list_all (\<lambda>x. eventTime x \<le> eventTime ?e) mid"
    by (auto simp: list_all_iff)
  then have tl: "tline = mid @ [?e]"
    using scheduleEvent_Inr [OF mid(2)] insertEvent_last by simp
  have ne: "mid \<noteq> []" using sm by auto
  have "paramValue 0 1 (mid @ [?e]) ?T =
          paramValue (eventEnd (last mid)) (endValue (last mid)) [?e] ?T"
    using ne mb by (intro paramValue_append_after)
  also have "\<dots> = 1 / 1000" by simp
  finally show ?thesis by (simp only: valueAtTime_def tl)
qed

lemma tone_fullCross_facts:
  shows "croppedLength tone fullCross = 8000" and "startSample tone fullCross = 4000"
    and "totalDuration tone fullCross = 1"
    and "fadeInActive fullCross" and "fadeOutActive fullCross"
    and "fadeInEnd tone fullCross = 1" and "fadeOutStart tone fullCross = 0"
    and "volume fullCross = 1"
    and "curve (fadeIn fullCross) = exponential" and "curve (fadeOut fullCross) = linear"
    and "cropStart fullCross = 1/2" and "cropEnd fullCross = 3/2"
    and "enabled (fadeIn fullCross)" and "duration (fadeIn fullCross) = 1"
  by (simp_all add: croppedLength_def endSample_def startSample_def totalDuration_def tone_def
        fullCross_def fadeInActive_def fadeOutActive_def fadeInEnd_def fadeOutStart_def)

lemma tone_fullCross_timeline:
  "scheduleAll [] (gainCalls tone fullCross) =
     Inr [SetValueAtTime 1 0, SetValueAtTime 0 0, SetValueAtTime (1 / 1000) 0,
          SetValueAtTime 1 0, ExponentialRampToValueAtTime 1 1, LinearRampToValueAtTime 0 1]"
proof -
  have "gainCalls tone fullCross =
     [SetValueAtTime 1 0, SetValueAtTime 0 0, SetValueAtTime (1 / 1000) 0,
      ExponentialRampToValueAtTime 1 1, SetValueAtTime 1 0, LinearRampToValueAtTime 0 1]"
    by (simp add: gainCalls_def fadeInCalls_eq fadeOutCalls_eq fadeInEvents_def
          fadeOutEvents_def tone_fullCross_facts)
  then show ?thesis by (simp add: scheduleEvent_def)
qed

text \<open>
  Claim C9, as stated, fails when a fade-out window reaches back over the fade-in
  window's edges. With an exponential fade-in and a linear fade-out that both span the
  whole crop, the fade-out's starting point \<open>setValueAtTime(volume, 0)\<close> comes after the
  fade-in's \<open>setValueAtTime(0.001, 0)\<close>: the gain at time 0, applied to frame 0, is the
  volume 1 and not 0.001; and at the common end of both windows the timeline holds the
  fade-out's final 0, not the volume.
\<close>

theorem fade_edges_overlap_counterexample:
  "enabled (fadeIn fullCross) \<and> 0 < duration (fadeIn fullCross)
   \<and> curve (fadeIn fullCross) = exponential \<and> volume fullCross = 1
   \<and> renderGain tone fullCross 0 = Some 1
   \<and> renderedSample tone fullCross 0 0 = Some 1
   \<and> fadeInEnd tone fullCross = 1
   \<and> renderGain tone fullCross (fadeInEnd tone fullCross) = Some 0"
proof -
  note f = tone_fullCross_facts
  have len: "0 < croppedLength tone fullCross" by (simp add: f)
  have cs: "0 \<le> cropStart fullCross" by (simp add: f)
  have ch: "0 < numberOfChannels tone" by (simp add: tone_fields)
  have g0: "renderGain tone fullCross 0 = Some 1"
    by (simp add: renderGain_def tone_fullCross_timeline valueAtTime_def)
  have g1: "renderGain tone fullCross (fadeInEnd tone fullCross) = Some 0"
    by (simp add: renderGain_def tone_fullCross_timeline valueAtTime_def f)
  have src: "sourceFrame tone (cropStart fullCross) (cropEnd fullCross - cropStart fullCross) 0 0 = 1"
    by (simp add: sourceFrame_def Let_def f tone_fields tone_sample)
  have r0: "renderedSample tone fullCross 0 0 = Some 1"
    using renderedSample_Inr [OF valid_buffer_tone len cs tone_fullCross_timeline ch, of 0] src
    by (simp add: valueAtTime_def f tone_fields)
  show ?thesis
    using g0 g1 r0 by (simp add: f)
qed

text \<open>
  Claim C9, amended. When the host accepts the automation:
  with \<open>fadeIn.enabled\<close> and a positive fade duration, the gain at the exact end of the
  fade-in window equals the static volume, provided that window ends before the crop
  does or no linear or exponential fade-out is in effect (at the common end of a
  fade-in and such a fade-out the timeline holds the fade-out's end value);
  for the exponential curve the gain at time 0 equals the floor 0.001, provided no
  fade-out window starts at time 0 (there the fade-out's starting point replaces it);
  and an exponential fade-out ends at the floor 0.001.
\<close>

theorem fade_boundary_gains:
  assumes "valid_buffer src" and "0 < croppedLength src s" and "gainAccepted src s"
  shows "(enabled (fadeIn s) \<and> 0 < duration (fadeIn s)
          \<and> (fadeInEnd src s < totalDuration src s \<or> \<not> fadeOutActive s
               \<or> curve (fadeOut s) = logarithmic \<or> curve (fadeOut s) = sCurve)
          \<longrightarrow> renderGain src s (fadeInEnd src s) = Some (volume s))
       \<and> (enabled (fadeIn s) \<and> 0 < duration (fadeIn s) \<and> curve (fadeIn s) = exponential
          \<and> (\<not> fadeOutActive s \<or> 0 < fadeOutStart src s)
          \<longrightarrow> renderGain src s 0 = Some 0.001)
       \<and> (enabled (fadeOut s) \<and> 0 < duration (fadeOut s) \<and> curve (fadeOut s) = exponential
          \<longrightarrow> renderGain src s (totalDuration src s) = Some 0.001)"
proof -
  have sr: "0 < sampleRate src" using assms(1) by (simp add: valid_buffer_def)
  note T = totalDuration_pos [OF assms(2) sr]
  obtain tline where acc: "scheduleAll [] (gainCalls src s) = Inr tline"
    using assms(3) by (auto simp: gainAccepted_def split: sum.splits)
  have g: "renderGain src s t = Some (valueAtTime tline t)" for t
    by (simp add: renderGain_def acc)
  show ?thesis
    using gain_at_fadeIn_end [OF T acc] gain_at_start_exponential [OF T acc]
      gain_at_end_exponential [OF T acc]
    by (simp add: g fadeInActive_def fadeOutActive_def)
qed

lemma tone_bothExponential_facts:
  shows "croppedLength tone bothExponential = 8000"
    and "totalDuration tone bothExponential = 1"
    and "fadeInActive bothExponential" and "fadeOutActive bothExponential"
    and "fadeInEnd tone bothExponential = 1/4" and "fadeOutStart tone bothExponential = 3/4"
    and "volume bothExponential = 1/2"
    and "curve (fadeIn bothExponential) = exponential"
    and "curve (fadeOut bothExponential) = exponential"
    and "enabled (fadeIn bothExponential)" and "duration (fadeIn bothExponential) = 1/4"
    and "enabled (fadeOut bothExponential)" and "duration (fadeOut bothExponential) = 1/4"
  by (simp_all add: croppedLength_def endSample_def startSample_def totalDuration_def tone_def
        bothExponential_def fadeInActive_def fadeOutActive_def fadeInEnd_def fadeOutStart_def)

theorem fade_boundary_gains_witness:
  "valid_buffer tone \<and> 0 < croppedLength tone bothExponential
   \<and> gainAccepted tone bothExponential
   \<and> enabled (fadeIn bothExponential) \<and> 0 < duration (fadeIn bothExponential)
   \<and> curve (fadeIn bothExponential) = exponential
   \<and> enabled (fadeOut bothExponential) \<and> 0 < duration (fadeOut bothExponential)
   \<and> curve (fadeOut bothExponential) = exponential
   \<and> fadeInEnd tone bothExponential < totalDuration tone bothExponential
   \<and> 0 < fadeOutStart tone bothExponential
   \<and> renderGain tone bothExponential (1/4) = Some (1/2)
   \<and> renderGain tone bothExponential 0 = Some (1/1000)
   \<and> renderGain tone bothExponential 1 = Some (1/1000)"
proof -
  note f = tone_bothExponential_facts
  have len: "0 < croppedLength tone bothExponential" by (simp add: f)
  have acc: "gainAccepted tone bothExponential"
    by (intro gainAccepted_no_overlap) (simp_all add: windowsOverlap_def f)
  note b = fade_boundary_gains [OF valid_buffer_tone len acc]
  have h1: "enabled (fadeIn bothExponential) \<and> 0 < duration (fadeIn bothExponential)
          \<and> (fadeInEnd tone bothExponential < totalDuration tone bothExponential
               \<or> \<not> fadeOutActive bothExponential
               \<or> curve (fadeOut bothExponential) = logarithmic
               \<or> curve (fadeOut bothExponential) = sCurve)"
    by (simp add: f)
  have h2: "enabled (fadeIn bothExponential) \<and> 0 < duration (fadeIn bothExponential)
          \<and> curve (fadeIn bothExponential) = exponential
          \<and> (\<not> fadeOutActive bothExponential \<or> 0 < fadeOutStart tone bothExponential)"
    by (simp add: f)
  have h3: "enabled (fadeOut bothExponential) \<and> 0 < duration (fadeOut bothExponential)
          \<and> curve (fadeOut bothExponential) = exponential"
    by (simp add: f)
  have r1: "renderGain tone bothExponential (fadeInEnd tone bothExponential)
              = Some (volume bothExponential)"
    using b h1 by blast
  have r2: "renderGain tone bothExponential 0 = Some 0.001"
    using b h2 by blast
  have r3: "renderGain tone bothExponential (totalDuration tone bothExponential) = Some 0.001"
    using b h3 by blast
  show ?thesis
    using valid_buffer_tone len acc r1 r2 r3 by (simp add: f)
qed

end
